theory Spec2Isabelle
  imports Complex_Main "HOL-Library.Sublist" "HOL-Library.AList"
begin

section \<open>The store: \<open>src/database/db_manager.py\<close>\<close>

text \<open>
  The three tables of \<open>init_database\<close>. A table is the list of its rows in rowid order,
  each row paired with its \<open>INTEGER PRIMARY KEY\<close>. Columns declared \<open>NOT NULL\<close>
  (\<open>filename\<close>, \<open>full_path\<close>) and the key columns the callers always fill with a
  value (\<open>file_id\<close> comes from \<open>add_file\<close>, \<open>source_index\<close> is \<open>str(Path)\<close>)
  are plain values; every other column is nullable, \<open>None\<close> standing for SQL NULL.
  Text compares with SQLite's default BINARY collation, that is, by equality. The two
  date columns, which every caller passes as \<open>None\<close>, are kept as they are bound.
\<close>

record file_data =
  f_filename :: string
  f_full_path :: string
  f_file_type :: "string option"
  f_size :: "int option"
  f_modified_date :: "string option"
  f_category :: "string option"
  f_processed :: bool

record annotation_data =
  a_file_id :: int
  a_annotation_date :: "string option"
  a_description :: "string option"
  a_source_index :: string

text \<open>
  An \<open>INTEGER\<close> of SQLite is a signed 64-bit number. A Python \<open>int\<close> outside that
  range cannot be bound to a statement: \<open>execute\<close> raises \<open>OverflowError\<close> before the
  statement runs.
\<close>

definition fits_int64 :: "int \<Rightarrow> bool" where
  "fits_int64 n \<longleftrightarrow> - (2 ^ 63) \<le> n \<and> n < 2 ^ 63"

text \<open>
  The column \<open>metadata\<close> of \<open>content\<close> is declared \<open>JSON\<close>, a type name that gives it
  NUMERIC affinity: a text written to it that reads as a number (white space, a sign,
  digits with at most one point and at least one digit, an exponent with at least one
  digit, white space) is stored as that number, an INTEGER or a REAL, and any other text
  as it is. \<open>Number t\<close> is the number that SQLite reads from the text \<open>t\<close>.
\<close>

datatype column_value = Text string | Number string

definition sql_space :: "char \<Rightarrow> bool" where
  "sql_space c \<longleftrightarrow> c \<in> set [CHR 0x09, CHR 0x0A, CHR 0x0B, CHR 0x0C, CHR 0x0D, CHR 0x20]"

definition is_digit :: "char \<Rightarrow> bool" where
  "is_digit c \<longleftrightarrow> c \<in> set ''0123456789''"

definition drop_sign :: "string \<Rightarrow> string" where
  "drop_sign s = (case s of [] \<Rightarrow> [] | c # r \<Rightarrow> if c = CHR ''-'' \<or> c = CHR ''+'' then r else s)"

definition numeric_literal :: "string \<Rightarrow> bool" where
  "numeric_literal s =
     (let s1 = drop_sign (dropWhile sql_space s);
          whole = takeWhile is_digit s1;
          s2 = dropWhile is_digit s1;
          has_point = (s2 \<noteq> [] \<and> hd s2 = CHR ''.'');
          fraction = (if has_point then takeWhile is_digit (tl s2) else []);
          s3 = (if has_point then dropWhile is_digit (tl s2) else s2);
          has_exponent = (s3 \<noteq> [] \<and> (hd s3 = CHR ''e'' \<or> hd s3 = CHR ''E''));
          exponent = (if has_exponent then takeWhile is_digit (drop_sign (tl s3)) else []);
          s4 = (if has_exponent then dropWhile is_digit (drop_sign (tl s3)) else s3)
      in whole @ fraction \<noteq> [] \<and> (if has_exponent then exponent \<noteq> [] else True) \<and>
         dropWhile sql_space s4 = [])"

definition numeric_affinity :: "string \<Rightarrow> column_value" where
  "numeric_affinity t = (if numeric_literal t then Number t else Text t)"

text \<open>
  The dictionary handed to \<open>add_content\<close>. The code tests \<open>'metadata' in content_data\<close>,
  so the key may be absent: \<open>c_metadata = None\<close>. In a stored row the field holds the
  value of the \<open>metadata JSON\<close> column.
\<close>

record 'm content_data =
  c_file_id :: int
  c_raw_text :: "string option"
  c_cleaned_text :: "string option"
  c_metadata :: "'m option"

type_synonym 'a table = "(int \<times> 'a) list"

record store =
  files :: "file_data table"
  annotations :: "annotation_data table"
  content :: "column_value content_data table"

datatype db_error = TypeError | ProgrammingError | OverflowError

text \<open>
  The rowid SQLite gives a row inserted without one: 1 into an empty table, otherwise one
  more than the largest rowid in use. (At the largest 64-bit rowid SQLite draws an unused
  one at random; the tables here never get that far, their rowids being assigned one by
  one from 1.)
\<close>

definition next_rowid :: "'a table \<Rightarrow> int" where
  "next_rowid t = (if t = [] then 1 else Max (set (map fst t)) + 1)"

definition init_database :: store where
  "init_database = \<lparr>files = [], annotations = [], content = []\<rparr>"

text \<open>
  \<open>add_file\<close>: a \<open>size\<close> that does not fit 64 bits makes \<open>execute\<close> raise
  \<open>OverflowError\<close>, whatever the table holds. \<open>INSERT OR IGNORE\<close> skips the row when
  \<open>UNIQUE(full_path)\<close> would be violated and leaves \<open>rowcount = 0\<close>; the code then selects
  the id of the row holding that path, and \<open>fetchone()[0]\<close> raises \<open>TypeError\<close> should the
  select find none. Otherwise the row is appended and \<open>lastrowid\<close> returned. A call that
  raises has rolled back.
\<close>

definition size_fits :: "file_data \<Rightarrow> bool" where
  "size_fits file_data = (case f_size file_data of None \<Rightarrow> True | Some n \<Rightarrow> fits_int64 n)"

definition add_file :: "store \<Rightarrow> file_data \<Rightarrow> db_error + (int \<times> store)" where
  "add_file s file_data =
     (if \<not> size_fits file_data then Inl OverflowError
      else if \<exists>row \<in> set (files s). f_full_path (snd row) = f_full_path file_data
      then (case find (\<lambda>row. f_full_path (snd row) = f_full_path file_data) (files s) of
              None \<Rightarrow> Inl TypeError
            | Some row \<Rightarrow> Inr (fst row, s))
      else (let i = next_rowid (files s)
            in Inr (i, s\<lparr>files := files s @ [(i, file_data)]\<rparr>)))"

text \<open>
  \<open>add_annotation\<close>: select by \<open>(file_id, source_index)\<close>; a row found is returned as it
  is, otherwise the annotation is inserted.
\<close>

definition add_annotation :: "store \<Rightarrow> annotation_data \<Rightarrow> db_error + (int \<times> store)" where
  "add_annotation s annotation_data =
     (case find (\<lambda>row. a_file_id (snd row) = a_file_id annotation_data \<and>
                        a_source_index (snd row) = a_source_index annotation_data)
                (annotations s) of
        Some existing \<Rightarrow> Inr (fst existing, s)
      | None \<Rightarrow>
          (let i = next_rowid (annotations s)
           in Inr (i, s\<lparr>annotations := annotations s @ [(i, annotation_data)]\<rparr>)))"

text \<open>
  \<open>add_content\<close>: the metadata, when the key is there, is replaced by \<open>json.dumps\<close> of
  it (\<open>dumps\<close>, a parameter: \<open>None\<close> when \<open>json.dumps\<close> raises \<open>TypeError\<close> on a value
  it cannot serialise). Then \<open>execute\<close> binds the values in the order of the statement:
  a \<open>file_id\<close> that does not fit 64 bits raises \<open>OverflowError\<close>, and a dictionary
  without the key \<open>metadata\<close> has no value for the last binding, which raises
  \<open>ProgrammingError\<close>. \<open>INSERT OR REPLACE\<close> takes the new rowid first, deletes the row
  that \<open>UNIQUE(file_id)\<close> conflicts with, and inserts; the column stores the text under
  its NUMERIC affinity. Every failure rolls back and is raised again: the store is as
  before.
\<close>

definition add_content ::
  "('m \<Rightarrow> string option) \<Rightarrow> store \<Rightarrow> 'm content_data \<Rightarrow> db_error + (int \<times> store)" where
  "add_content dumps s content_data =
     (case (case c_metadata content_data of
              None \<Rightarrow> Inr None
            | Some m \<Rightarrow> (case dumps m of None \<Rightarrow> Inl TypeError | Some js \<Rightarrow> Inr (Some js))) of
        Inl e \<Rightarrow> Inl e
      | Inr serialised \<Rightarrow>
          if \<not> fits_int64 (c_file_id content_data) then Inl OverflowError
          else (case serialised of
                  None \<Rightarrow> Inl ProgrammingError
                | Some js \<Rightarrow>
                    (let i = next_rowid (content s);
                         row = \<lparr>c_file_id = c_file_id content_data,
                                c_raw_text = c_raw_text content_data,
                                c_cleaned_text = c_cleaned_text content_data,
                                c_metadata = Some (numeric_affinity js)\<rparr>
                     in Inr (i, s\<lparr>content :=
                          filter (\<lambda>old. c_file_id (snd old) \<noteq> c_file_id content_data)
                            (content s) @ [(i, row)]\<rparr>))))"

text \<open>\<open>mark_as_processed\<close>: \<open>UPDATE files SET processed = TRUE WHERE id = ?\<close>.\<close>

definition mark_as_processed :: "store \<Rightarrow> int \<Rightarrow> store" where
  "mark_as_processed s file_id =
     s\<lparr>files := map (\<lambda>row. if fst row = file_id
                              then (fst row, (snd row)\<lparr>f_processed := True\<rparr>)
                              else row) (files s)\<rparr>"

text \<open>The constraint \<open>UNIQUE(full_path)\<close> of the \<open>files\<close> table, as a predicate on a store.\<close>

definition files_unique :: "store \<Rightarrow> bool" where
  "files_unique s = distinct (map (\<lambda>row. f_full_path (snd row)) (files s))"

definition rows_with_path :: "store \<Rightarrow> string \<Rightarrow> file_data table" where
  "rows_with_path s p = filter (\<lambda>row. f_full_path (snd row) = p) (files s)"

text \<open>
  The lookup of \<open>add_annotation\<close> finds at most one row when no two rows share
  \<open>(file_id, source_index)\<close>; \<open>UNIQUE(file_id)\<close> is the constraint of \<open>content\<close>.
\<close>

definition annotation_key :: "int \<times> annotation_data \<Rightarrow> int \<times> string" where
  "annotation_key row = (a_file_id (snd row), a_source_index (snd row))"

definition annotations_unique :: "store \<Rightarrow> bool" where
  "annotations_unique s = distinct (map annotation_key (annotations s))"

definition content_of :: "store \<Rightarrow> int \<Rightarrow> column_value content_data table" where
  "content_of s file_id = filter (\<lambda>row. c_file_id (snd row) = file_id) (content s)"

text \<open>
  A client of the store calls its four writing operations in some order. A call that
  raises has rolled back, so the store it leaves is the one it found.
\<close>

datatype 'm store_op =
    AddFile file_data
  | AddAnnotation annotation_data
  | AddContent "'m content_data"
  | MarkProcessed int

definition after :: "store \<Rightarrow> db_error + (int \<times> store) \<Rightarrow> store" where
  "after s r = (case r of Inl e \<Rightarrow> s | Inr (i, s') \<Rightarrow> s')"

fun apply_op :: "('m \<Rightarrow> string option) \<Rightarrow> store \<Rightarrow> 'm store_op \<Rightarrow> store" where
  "apply_op dumps s (AddFile fd) = after s (add_file s fd)"
| "apply_op dumps s (AddAnnotation ad) = after s (add_annotation s ad)"
| "apply_op dumps s (AddContent cd) = after s (add_content dumps s cd)"
| "apply_op dumps s (MarkProcessed i) = mark_as_processed s i"

definition run_ops :: "('m \<Rightarrow> string option) \<Rightarrow> store \<Rightarrow> 'm store_op list \<Rightarrow> store" where
  "run_ops dumps s ops = foldl (apply_op dumps) s ops"

section \<open>Python strings and paths\<close>

text \<open>
  A Python \<open>str\<close> is the list of its code points; the model has the code points below
  256, one \<open>char\<close> each. \<open>is_space\<close> is \<open>str.isspace\<close> on one character there, which
  is also the class \<open>\s\<close> of \<open>re\<close>; \<open>prefix\<close> is \<open>str.startswith\<close> and \<open>sublist\<close> is
  \<open>in\<close> between two strings.
\<close>

definition is_space :: "char \<Rightarrow> bool" where
  "is_space c \<longleftrightarrow> c \<in> set [CHR 0x09, CHR 0x0A, CHR 0x0B, CHR 0x0C, CHR 0x0D, CHR 0x1C,
                           CHR 0x1D, CHR 0x1E, CHR 0x1F, CHR 0x20, CHR 0x85, CHR 0xA0]"

definition strip :: "string \<Rightarrow> string" where
  "strip s = rev (dropWhile is_space (rev (dropWhile is_space s)))"

text \<open>
  \<open>s.split(sep)\<close> for a separator that is not empty (every separator of the code is a
  literal): the pieces between the occurrences of \<open>sep\<close>, found from the left.
\<close>

fun str_split :: "string \<Rightarrow> string \<Rightarrow> string list" where
  "str_split sep [] = [] # []"
| "str_split sep (c # cs) =
     (if sep \<noteq> [] \<and> prefix sep (c # cs)
      then [] # str_split sep (drop (length sep) (c # cs))
      else (case str_split sep cs of
              [] \<Rightarrow> [c] # []
            | piece # pieces \<Rightarrow> (c # piece) # pieces))"

fun str_join :: "string \<Rightarrow> string list \<Rightarrow> string" where
  "str_join sep [] = []"
| "str_join sep [x] = x"
| "str_join sep (x # y # ys) = x @ sep @ str_join sep (y # ys)"

text \<open>Indexing a list, \<open>xs[i]\<close> for \<open>i \<ge> 0\<close>: \<open>None\<close> where Python raises \<open>IndexError\<close>.\<close>

definition item :: "'a list \<Rightarrow> nat \<Rightarrow> 'a option" where
  "item xs i = (if i < length xs then Some (xs ! i) else None)"

text \<open>
  The regular expressions of the parser, each used with \<open>re.match\<close> (anchored at the
  start of the line). All three end in \<open>\s*(.+)\<close> or \<open>\s+(.+)\<close>: a greedy run of
  white space that gives characters back, one by one and down to its minimum, until
  \<open>(.+)\<close> finds at least one character other than a newline to take. \<open>dot_plus\<close> is the
  group, \<open>spaces_dot_plus n j s\<close> tries \<open>j\<close>, \<open>j - 1\<close>, ..., \<open>n\<close> white-space characters.
\<close>

definition dot_plus :: "string \<Rightarrow> string option" where
  "dot_plus s = (let g = takeWhile (\<lambda>c. c \<noteq> CHR 0x0A) s in if g = [] then None else Some g)"

primrec spaces_dot_plus :: "nat \<Rightarrow> nat \<Rightarrow> string \<Rightarrow> string option" where
  "spaces_dot_plus n 0 s = (if n = 0 then dot_plus s else None)"
| "spaces_dot_plus n (Suc j) s =
     (if Suc j < n then None
      else (case dot_plus (drop (Suc j) s) of
              Some g \<Rightarrow> Some g
            | None \<Rightarrow> spaces_dot_plus n j s))"

definition re_spaces_group :: "nat \<Rightarrow> string \<Rightarrow> string option" where
  "re_spaces_group n s = spaces_dot_plus n (length (takeWhile is_space s)) s"

text \<open>\<open>re.match(r'File Name:\s*(.+)', line)\<close>: the group, when the line matches.\<close>

definition re_file_name :: "string \<Rightarrow> string option" where
  "re_file_name line =
     (if prefix ''File Name:'' line then re_spaces_group 0 (drop 10 line) else None)"

text \<open>\<open>re.match(r'(MD5|SHA-256)\s*\|\s*(.+)', line)\<close>: both groups.\<close>

definition re_hash :: "string \<Rightarrow> (string \<times> string) option" where
  "re_hash line =
     (case (if prefix ''MD5'' line then Some ''MD5''
            else if prefix ''SHA-256'' line then Some ''SHA-256'' else None) of
        None \<Rightarrow> None
      | Some hash_type \<Rightarrow>
          (case dropWhile is_space (drop (length hash_type) line) of
             [] \<Rightarrow> None
           | c # r \<Rightarrow>
               if c = CHR ''|'' then map_option (Pair hash_type) (re_spaces_group 0 r)
               else None))"

text \<open>\<open>re.match(r'Authored by\s+(.+)', line)\<close>: the group.\<close>

definition re_author :: "string \<Rightarrow> string option" where
  "re_author line =
     (if prefix ''Authored by'' line then re_spaces_group 1 (drop 11 line) else None)"

text \<open>
  \<open>pathlib.Path\<close> in its POSIX flavour: the root (\<open>/\<close>, or \<open>//\<close> for exactly two leading
  slashes, or none) and the names between the slashes, the empty ones and \<open>.\<close> dropped.
\<close>

record path =
  path_root :: string
  path_names :: "string list"

definition Path :: "string \<Rightarrow> path" where
  "Path s = \<lparr>path_root = (if prefix ''//'' s \<and> \<not> prefix ''///'' s then ''//''
                          else if prefix ''/'' s then ''/'' else ''''),
            path_names = filter (\<lambda>x. x \<noteq> '''' \<and> x \<noteq> ''.'') (str_split ''/'' s)\<rparr>"

definition parts :: "path \<Rightarrow> string list" where
  "parts p = (if path_root p = [] then [] else [path_root p]) @ path_names p"

definition path_str :: "path \<Rightarrow> string" where
  "path_str p = (if path_root p = [] \<and> path_names p = [] then ''.''
                 else path_root p @ str_join ''/'' (path_names p))"

text \<open>\<open>Path.name\<close> and \<open>Path.suffix\<close>: the last name, and what it has from its last dot
  on, unless that dot is its first or its last character.\<close>

definition path_name :: "path \<Rightarrow> string" where
  "path_name p = (if path_names p = [] then '''' else last (path_names p))"

definition suffix_of :: "path \<Rightarrow> string" where
  "suffix_of p =
     (let name = path_name p;
          ext = rev (takeWhile (\<lambda>c. c \<noteq> CHR ''.'') (rev name))
      in if CHR ''.'' \<in> set name \<and> ext \<noteq> [] \<and> length ext + 1 < length name
         then CHR ''.'' # ext else '''')"


section \<open>The index parser: \<open>src/parsers/index_parser.py\<close>\<close>

record metadata =
  tags :: "string list"
  systems :: "string list"
  hashes :: "(string \<times> string) list"
  author :: "string option"
  category :: string

text \<open>
  An entry dictionary. While its block is read, \<open>description\<close> is the list of the lines
  collected and the key \<open>filename\<close> may be missing; in the result \<open>description\<close> is a
  string.
\<close>

record 'd entry =
  metadata :: metadata
  description :: 'd
  source_index :: string
  filename :: "string option"

text \<open>
  The messages appended to \<open>self.errors\<close>: an entry skipped for want of a file name
  (the message names \<open>file_path\<close>), and a failure to read the file (the message names
  \<open>file_path\<close> and \<open>str(e)\<close>).
\<close>

datatype parse_error =
    SkippedEntry string
  | ReadFailed string string

datatype exn = IndexError

definition exn_str :: "exn \<Rightarrow> string" where
  "exn_str e = (case e of IndexError \<Rightarrow> ''list index out of range'')"

record parser =
  errors :: "parse_error list"
  source_path :: "path option"

definition IndexParser :: parser where
  "IndexParser = \<lparr>errors = [], source_path = None\<rparr>"

text \<open>The dictionary \<open>categories\<close> of \<open>_determine_category\<close>, in its order of insertion.\<close>

definition categories :: "(string \<times> string list) list" where
  "categories = [(''exploit'', [''exploits'']), (''shellcode'', [''shellcodes'']),
                 (''tool'', [''util'']), (''doc'', [''Doc'']),
                 (''systemerror'', [''systemerror''])]"

fun scan_parts :: "string list \<Rightarrow> string" where
  "scan_parts [] = ''unknown''"
| "scan_parts (part # rest) =
     (case find (\<lambda>(cat, markers). part \<in> set markers) categories of
        Some (cat, markers) \<Rightarrow> cat
      | None \<Rightarrow> scan_parts rest)"

definition determine_category :: "parser \<Rightarrow> string" where
  "determine_category self =
     (case source_path self of None \<Rightarrow> ''unknown'' | Some p \<Rightarrow> scan_parts (parts p))"

text \<open>\<open>str(self.source_path)\<close>\<close>

definition source_path_str :: "parser \<Rightarrow> string" where
  "source_path_str self =
     (case source_path self of None \<Rightarrow> ''None'' | Some p \<Rightarrow> path_str p)"

text \<open>\<open>[t.strip() for t in s.split(',') if t.strip()]\<close>\<close>

definition comma_list :: "string \<Rightarrow> string list" where
  "comma_list s = filter (\<lambda>t. t \<noteq> []) (map strip (str_split '','' s))"

text \<open>
  One turn of the loop over the lines of a block, on the entry under construction and
  the flag \<open>in_description\<close>.
\<close>

definition process_line ::
  "string list entry \<times> bool \<Rightarrow> string \<Rightarrow> exn + string list entry \<times> bool" where
  "process_line st raw =
     (let current_entry = fst st; in_description = snd st; line = strip raw
      in if line = [] then Inr st
         else case re_file_name line of
           Some g \<Rightarrow>
             (let name = strip g
              in Inr (if name \<noteq> [] \<and> name \<noteq> '':''
                      then current_entry\<lparr>filename := Some name\<rparr> else current_entry,
                      in_description))
         | None \<Rightarrow>
             if line = ''Description:'' then Inr (current_entry, True)
             else if prefix ''tags |'' line then
               (case item (str_split ''|'' line) 1 of
                  None \<Rightarrow> Inl IndexError
                | Some t \<Rightarrow>
                    Inr (current_entry\<lparr>metadata :=
                           (metadata current_entry)\<lparr>tags := comma_list (strip t)\<rparr>\<rparr>, False))
             else if prefix ''systems |'' line then
               (case item (str_split ''|'' line) 1 of
                  None \<Rightarrow> Inl IndexError
                | Some t \<Rightarrow>
                    Inr (current_entry\<lparr>metadata :=
                           (metadata current_entry)\<lparr>systems := comma_list (strip t)\<rparr>\<rparr>, False))
             else case re_hash line of
               Some (hash_type, hash_value) \<Rightarrow>
                 Inr (current_entry\<lparr>metadata :=
                        (metadata current_entry)\<lparr>hashes :=
                           AList.update hash_type (strip hash_value)
                             (hashes (metadata current_entry))\<rparr>\<rparr>, False)
             | None \<Rightarrow>
                 (case re_author line of
                    Some g \<Rightarrow>
                      Inr (current_entry\<lparr>metadata :=
                             (metadata current_entry)\<lparr>author := Some (strip g)\<rparr>\<rparr>, False)
                  | None \<Rightarrow>
                      if in_description
                      then Inr (current_entry\<lparr>description :=
                                  description current_entry @ [line]\<rparr>, in_description)
                      else Inr st))"

fun process_lines ::
  "string list entry \<times> bool \<Rightarrow> string list \<Rightarrow> exn + string list entry \<times> bool" where
  "process_lines st [] = Inr st"
| "process_lines st (line # lines) =
     (case process_line st line of
        Inl e \<Rightarrow> Inl e
      | Inr st' \<Rightarrow> process_lines st' lines)"

text \<open>
  The state of the loop over the blocks: the list \<open>results\<close>, \<open>self.errors\<close>, and the
  flag \<open>in_description\<close>, which is set to \<open>False\<close> once, before the loop.
\<close>

record loop_state =
  results :: "string entry list"
  errs :: "parse_error list"
  in_description :: bool

definition process_entry ::
  "parser \<Rightarrow> string \<Rightarrow> loop_state \<Rightarrow> string \<Rightarrow> exn + loop_state" where
  "process_entry self file_path st entry_text =
     (if strip entry_text = [] then Inr st
      else
        (let current_entry =
               \<lparr>metadata = \<lparr>tags = [], systems = [], hashes = [], author = None,
                             category = determine_category self\<rparr>,
                description = [], source_index = source_path_str self, filename = None\<rparr>
         in case process_lines (current_entry, in_description st)
                   (str_split [CHR 0x0A] (strip entry_text)) of
              Inl e \<Rightarrow> Inl e
            | Inr (cur, in_d) \<Rightarrow>
                (let d = strip (str_join '' '' (description cur));
                     final = \<lparr>metadata = metadata cur,
                              description = (if d = [] then ''No description available'' else d),
                              source_index = source_index cur, filename = filename cur\<rparr>
                 in if (case filename final of None \<Rightarrow> False | Some name \<Rightarrow> name \<noteq> [])
                    then Inr (st\<lparr>results := results st @ [final], in_description := in_d\<rparr>)
                    else Inr (st\<lparr>errs := errs st @ [SkippedEntry file_path],
                                 in_description := in_d\<rparr>))))"

text \<open>The loop over the blocks; an exception leaves it with the errors appended so far.\<close>

fun process_entries ::
  "parser \<Rightarrow> string \<Rightarrow> loop_state \<Rightarrow> string list \<Rightarrow> exn \<times> loop_state + loop_state" where
  "process_entries self file_path st [] = Inr st"
| "process_entries self file_path st (entry_text # entries) =
     (case process_entry self file_path st entry_text of
        Inl e \<Rightarrow> Inl (e, st)
      | Inr st' \<Rightarrow> process_entries self file_path st' entries)"

text \<open>
  \<open>parse_file\<close>. \<open>opened\<close> is what \<open>open\<close> and \<open>f.read()\<close> give for \<open>file_path\<close>:
  \<open>Inr\<close> the decoded text, \<open>Inl\<close> the message of the exception they raised. Every
  exception ends in the \<open>except\<close> branch: one more error, and the empty list returned.
\<close>

definition parse_file ::
  "parser \<Rightarrow> string \<Rightarrow> string + string \<Rightarrow> string entry list \<times> parser" where
  "parse_file self file_path opened =
     (let self1 = self\<lparr>source_path := Some (Path file_path)\<rparr>
      in case opened of
           Inl msg \<Rightarrow> ([], self1\<lparr>errors := errors self1 @ [ReadFailed file_path msg]\<rparr>)
         | Inr body \<Rightarrow>
             (case process_entries self1 file_path
                     \<lparr>results = [], errs = errors self1, in_description = False\<rparr>
                     (str_split ''///'' body) of
                Inl (e, st) \<Rightarrow>
                  ([], self1\<lparr>errors := errs st @ [ReadFailed file_path (exn_str e)]\<rparr>)
              | Inr st \<Rightarrow> (results st, self1\<lparr>errors := errs st\<rparr>)))"

text \<open>
  The classification as the specification words it: an ordered table of rules, each
  from a segment (matched exactly) to a category; the path's segments are scanned in
  order and, for each segment, the rules in table order; the first match gives the
  category, and no match gives \<open>unknown\<close>.
\<close>

definition spec_rules :: "(string \<times> string) list" where
  "spec_rules = [(''exploits'', ''exploit''), (''shellcodes'', ''shellcode''),
                 (''util'', ''tool''), (''Doc'', ''doc''), (''systemerror'', ''systemerror'')]"

definition spec_classify :: "string list \<Rightarrow> string" where
  "spec_classify segments =
     (case find (\<lambda>(segment, rule). segment = fst rule)
             (concat (map (\<lambda>segment. map (Pair segment) spec_rules) segments)) of
        None \<Rightarrow> ''unknown''
      | Some (segment, rule) \<Rightarrow> snd rule)"

section \<open>The coverage analyzer: \<open>tools/analyze_coverage.py\<close>\<close>

text \<open>
  The analyzer keeps the set of manifest paths, the set of file names found in index
  files and a count per category (a \<open>defaultdict(int)\<close>: a missing key counts 0). Its
  tables of extensions and of top-level directories, which only the two top-10 lists
  of the report read, are left out.
\<close>

record analyzer =
  all_files :: "string set"
  indexed_files :: "string set"
  category_count :: "string \<Rightarrow> nat"

definition CoverageAnalyzer :: analyzer where
  "CoverageAnalyzer = \<lparr>all_files = {}, indexed_files = {}, category_count = (\<lambda>k. 0)\<rparr>"

text \<open>
  \<open>load_all_files\<close>, on the text of the manifest: every line, stripped, that is not
  empty is added to \<open>all_files\<close>.
\<close>

definition manifest_paths :: "string \<Rightarrow> string list" where
  "manifest_paths manifest =
     filter (\<lambda>filepath. filepath \<noteq> []) (map strip (str_split [CHR 0x0A] manifest))"

definition load_all_files :: "analyzer \<Rightarrow> string \<Rightarrow> analyzer" where
  "load_all_files self manifest =
     self\<lparr>all_files := all_files self \<union> set (manifest_paths manifest)\<rparr>"

text \<open>The dictionary \<open>categories\<close> of the analyzer's \<open>_determine_category\<close>, in its order.\<close>

definition coverage_categories :: "(string \<times> string) list" where
  "coverage_categories = [(''exploits'', ''exploit''), (''shellcodes'', ''shellcode''),
                          (''util'', ''tool''), (''Doc'', ''doc''), (''systemerror'', ''error'')]"

fun coverage_scan_parts :: "string list \<Rightarrow> string" where
  "coverage_scan_parts [] = ''unknown''"
| "coverage_scan_parts (part # rest) =
     (case find (\<lambda>(marker, cat). sublist marker part) coverage_categories of
        Some (marker, cat) \<Rightarrow> cat
      | None \<Rightarrow> coverage_scan_parts rest)"

definition coverage_determine_category :: "string \<Rightarrow> string" where
  "coverage_determine_category index_path = coverage_scan_parts (parts (Path index_path))"

text \<open>\<open>s.split(c, 1)\<close>: split at the first occurrence of \<open>c\<close> only.\<close>

definition split_once :: "char \<Rightarrow> string \<Rightarrow> string list" where
  "split_once c s =
     (if c \<in> set s then [takeWhile (\<lambda>x. x \<noteq> c) s, tl (dropWhile (\<lambda>x. x \<noteq> c) s)] else [s])"

text \<open>
  The loop over the lines of one block: the first line that starts, once stripped, with
  \<open>File Name:\<close> and has a name after the colon gives the name and ends the loop
  (\<open>break\<close>).
\<close>

fun find_file_name :: "string list \<Rightarrow> exn + string option" where
  "find_file_name [] = Inr None"
| "find_file_name (line # rest) =
     (if prefix ''File Name:'' (strip line)
      then (case item (split_once CHR '':'' line) 1 of
              None \<Rightarrow> Inl IndexError
            | Some r \<Rightarrow> if strip r \<noteq> [] then Inr (Some (strip r)) else find_file_name rest)
      else find_file_name rest)"

fun scan_entries :: "string \<Rightarrow> analyzer \<Rightarrow> string list \<Rightarrow> exn + analyzer" where
  "scan_entries cat self [] = Inr self"
| "scan_entries cat self (entry # entries) =
     (if strip entry = [] then scan_entries cat self entries
      else (case find_file_name (str_split [CHR 0x0A] entry) of
              Inl e \<Rightarrow> Inl e
            | Inr None \<Rightarrow> scan_entries cat self entries
            | Inr (Some name) \<Rightarrow>
                scan_entries cat
                  (self\<lparr>indexed_files := insert name (indexed_files self),
                        category_count := (category_count self)(cat := category_count self cat + 1)\<rparr>)
                  entries))"

text \<open>
  \<open>process_index_file\<close>, on the text read from \<open>index_path\<close>. The function has no
  handler: an exception leaves it (and \<open>main\<close> ends the run).
\<close>

definition process_index_file :: "analyzer \<Rightarrow> string \<Rightarrow> string \<Rightarrow> exn + analyzer" where
  "process_index_file self index_path body =
     scan_entries (coverage_determine_category index_path) self (str_split ''///'' body)"

fun process_index_files :: "analyzer \<Rightarrow> (string \<times> string) list \<Rightarrow> exn + analyzer" where
  "process_index_files self [] = Inr self"
| "process_index_files self ((index_path, body) # rest) =
     (case process_index_file self index_path body of
        Inl e \<Rightarrow> Inl e
      | Inr self' \<Rightarrow> process_index_files self' rest)"

text \<open>
  The \<open>summary\<close> of \<open>generate_report\<close>. \<open>len\<close> of a set is its cardinality. The
  percentage is a Python number: the \<open>int\<close> 0 when there is no file, and otherwise the
  \<open>float\<close> that \<open>indexed_files / total_files * 100\<close> gives. The two float operations are
  parameters over a type \<open>'f\<close> of floats: \<open>truediv a b\<close> is \<open>a / b\<close> for two \<open>int\<close>,
  \<open>mul x n\<close> is \<open>x * n\<close> for a \<open>float\<close> and an \<open>int\<close>; each rounds its result.
\<close>

datatype 'f number = PyInt int | PyFloat 'f

record 'f summary =
  r_total_files :: int
  r_indexed_files :: int
  r_coverage_percent :: "'f number"
  r_missing_files :: int

definition generate_report ::
  "(int \<Rightarrow> int \<Rightarrow> 'f) \<Rightarrow> ('f \<Rightarrow> int \<Rightarrow> 'f) \<Rightarrow> analyzer \<Rightarrow> 'f summary" where
  "generate_report truediv mul self =
     (let total_files = int (card (all_files self));
          indexed = int (card (indexed_files self));
          coverage = (if total_files > 0 then PyFloat (mul (truediv indexed total_files) 100)
                      else PyInt 0)
      in \<lparr>r_total_files = total_files, r_indexed_files = indexed,
          r_coverage_percent = coverage, r_missing_files = total_files - indexed\<rparr>)"

text \<open>The file names that the analyzer records from the blocks of one index file.\<close>

definition names_of :: "string list \<Rightarrow> string list" where
  "names_of entries =
     concat (map (\<lambda>entry. case find_file_name (str_split [CHR 0x0A] entry) of
                             Inr (Some name) \<Rightarrow> [name] | _ \<Rightarrow> [])
                 (filter (\<lambda>entry. strip entry \<noteq> []) entries))"

definition recorded_names :: "string \<Rightarrow> string list" where
  "recorded_names body = names_of (str_split ''///'' body)"

text \<open>
  \<open>main\<close>: load the manifest, process the index files in order, make the report. An
  exception ends the run without a report.
\<close>

definition coverage_run ::
  "(int \<Rightarrow> int \<Rightarrow> 'f) \<Rightarrow> ('f \<Rightarrow> int \<Rightarrow> 'f) \<Rightarrow> string \<Rightarrow> (string \<times> string) list
     \<Rightarrow> exn + 'f summary" where
  "coverage_run truediv mul manifest index_files =
     (case process_index_files (load_all_files CoverageAnalyzer manifest) index_files of
        Inl e \<Rightarrow> Inl e
      | Inr self \<Rightarrow> Inr (generate_report truediv mul self))"


section \<open>The statistics of a dry run: \<open>src/utils/stats_analyzer.py\<close>\<close>

text \<open>
  The dictionary that \<open>add_entry\<close> reads. The code asks for each key before it reads
  it, so every key may be absent (\<open>None\<close>); the values of \<open>category\<close> and \<open>author\<close>
  may themselves be Python's \<open>None\<close>.
\<close>

record meta_dict =
  d_category :: "string option option"
  d_tags :: "string list option"
  d_systems :: "string list option"
  d_author :: "string option option"

record entry_dict =
  d_metadata :: "meta_dict option"
  d_filename :: "string option"

text \<open>An entry of the parser, read as such a dictionary.\<close>

definition as_dict :: "string entry \<Rightarrow> entry_dict" where
  "as_dict e =
     \<lparr>d_metadata = Some \<lparr>d_category = Some (Some (category (metadata e))),
                          d_tags = Some (tags (metadata e)),
                          d_systems = Some (systems (metadata e)),
                          d_author = Some (author (metadata e))\<rparr>,
      d_filename = filename e\<rparr>"

text \<open>A \<open>Counter\<close>: a key never counted reads 0.\<close>

type_synonym counter = "string \<Rightarrow> nat"

definition bump :: "counter \<Rightarrow> string \<Rightarrow> counter" where
  "bump c k = c(k := c k + 1)"

record stats =
  total_entries :: nat
  total_files :: nat
  category_counter :: counter
  tag_counter :: counter
  system_counter :: counter
  file_types :: counter
  authors :: counter
  stat_errors :: "string list"

definition StatsAnalyzer :: stats where
  "StatsAnalyzer = \<lparr>total_entries = 0, total_files = 0, category_counter = (\<lambda>k. 0),
     tag_counter = (\<lambda>k. 0), system_counter = (\<lambda>k. 0), file_types = (\<lambda>k. 0),
     authors = (\<lambda>k. 0), stat_errors = []\<rparr>"

text \<open>\<open>v or default\<close> for \<open>v\<close> a string or \<open>None\<close>.\<close>

definition or_default :: "string option \<Rightarrow> string \<Rightarrow> string" where
  "or_default v d = (case v of None \<Rightarrow> d | Some s \<Rightarrow> if s = [] then d else s)"

text \<open>The loop \<open>for tag in ...: if tag: counter[tag] += 1\<close>.\<close>

definition count_all :: "counter \<Rightarrow> string list \<Rightarrow> counter" where
  "count_all c xs = foldl (\<lambda>c x. if x \<noteq> [] then bump c x else c) c xs"

text \<open>\<open>Path(name).suffix.lstrip('.') or 'no_extension'\<close>\<close>

definition file_type_of :: "string \<Rightarrow> string" where
  "file_type_of name =
     or_default (Some (dropWhile (\<lambda>c. c = CHR ''.'') (suffix_of (Path name)))) ''no_extension''"

definition add_entry :: "stats \<Rightarrow> entry_dict \<Rightarrow> stats" where
  "add_entry self entry =
     (let s1 = self\<lparr>total_entries := total_entries self + 1\<rparr>;
          s2 = (case d_metadata entry of
                  None \<Rightarrow> s1
                | Some m \<Rightarrow>
                    (case d_category m of
                       None \<Rightarrow> s1
                     | Some v \<Rightarrow>
                         s1\<lparr>category_counter :=
                              bump (category_counter s1) (or_default v ''unknown'')\<rparr>));
          s3 = (case d_metadata entry of
                  None \<Rightarrow> s2
                | Some m \<Rightarrow>
                    (case d_tags m of
                       None \<Rightarrow> s2
                     | Some ts \<Rightarrow> s2\<lparr>tag_counter := count_all (tag_counter s2) ts\<rparr>));
          s4 = (case d_metadata entry of
                  None \<Rightarrow> s3
                | Some m \<Rightarrow>
                    (case d_systems m of
                       None \<Rightarrow> s3
                     | Some ss \<Rightarrow> s3\<lparr>system_counter := count_all (system_counter s3) ss\<rparr>));
          s5 = (case d_filename entry of
                  None \<Rightarrow> s4
                | Some name \<Rightarrow> s4\<lparr>file_types := bump (file_types s4) (file_type_of name)\<rparr>)
      in (case d_metadata entry of
            None \<Rightarrow> s5
          | Some m \<Rightarrow>
              (case d_author m of
                 None \<Rightarrow> s5
               | Some v \<Rightarrow> s5\<lparr>authors := bump (authors s5) (or_default v ''unknown'')\<rparr>)))"

section \<open>Saving a batch: \<open>tools/process_indexes.py\<close>\<close>

text \<open>\<open>Path.parent\<close> and the operator \<open>/\<close> of a path with a string.\<close>

definition parent :: "path \<Rightarrow> path" where
  "parent p = p\<lparr>path_names := butlast (path_names p)\<rparr>"

definition joinpath :: "path \<Rightarrow> string \<Rightarrow> path" where
  "joinpath p s =
     (let q = Path s
      in if path_root q \<noteq> [] then q else p\<lparr>path_names := path_names p @ path_names q\<rparr>)"

text \<open>
  The processor owns the store and the statistics. \<open>json.dumps\<close> is called twice on the
  metadata, by \<open>save_entries_to_db\<close> on the dictionary (\<open>dumps_metadata\<close>) and by
  \<open>add_content\<close> on the string that gives (\<open>dumps_str\<close>); both are parameters, and
  neither call can fail on these values.
\<close>

record processor =
  dry_run :: bool
  db_manager :: store
  stats_analyzer :: stats

text \<open>
  Modelled from the spec: \<open>init_db_connection\<close>, which the sources lack. The store is
  auto-initializing: the call opens it and creates the tables that do not exist yet; no
  row is added, changed or removed.
\<close>

definition init_db_connection :: "processor \<Rightarrow> processor" where
  "init_db_connection self = self"

definition full_path_of :: "string \<Rightarrow> string \<Rightarrow> string" where
  "full_path_of index_path name = path_str (joinpath (parent (Path index_path)) name)"

text \<open>
  The body of the loop over the entries: the processor afterwards, and what is added to
  \<open>processed\<close>. Each exception is caught and logged, and the loop goes on; what the
  store committed before stays.
\<close>

definition save_entry ::
  "(metadata \<Rightarrow> string) \<Rightarrow> (string \<Rightarrow> string) \<Rightarrow> string \<Rightarrow> processor \<Rightarrow> string entry
     \<Rightarrow> processor \<times> nat" where
  "save_entry dumps_metadata dumps_str index_path self entry =
     (if dry_run self
      then (self\<lparr>stats_analyzer := add_entry (stats_analyzer self) (as_dict entry)\<rparr>, 1)
      else case filename entry of
        None \<Rightarrow> (init_db_connection self, 0)
      | Some name \<Rightarrow>
          (let file_data =
                 \<lparr>f_filename = name, f_full_path = full_path_of index_path name,
                  f_file_type = Some (dropWhile (\<lambda>c. c = CHR ''.'') (suffix_of (Path name))),
                  f_size = Some 0, f_modified_date = None,
                  f_category = Some (category (metadata entry)), f_processed = False\<rparr>
           in case add_file (db_manager (init_db_connection self)) file_data of
                Inl e \<Rightarrow> (init_db_connection self, 0)
              | Inr (file_id, s1) \<Rightarrow>
                  (let annotation_data =
                         \<lparr>a_file_id = file_id, a_annotation_date = None,
                          a_description = Some (description entry),
                          a_source_index = source_index entry\<rparr>
                   in case add_annotation s1 annotation_data of
                        Inl e \<Rightarrow> ((init_db_connection self)\<lparr>db_manager := s1\<rparr>, 0)
                      | Inr (annotation_id, s2) \<Rightarrow>
                          (let content_data =
                                 \<lparr>c_file_id = file_id, c_raw_text = None,
                                  c_cleaned_text = None,
                                  c_metadata = Some (dumps_metadata (metadata entry))\<rparr>
                           in case add_content (\<lambda>t. Some (dumps_str t)) s2 content_data of
                                Inl e \<Rightarrow> ((init_db_connection self)\<lparr>db_manager := s2\<rparr>, 0)
                              | Inr (content_id, s3) \<Rightarrow>
                                  ((init_db_connection self)\<lparr>db_manager := s3\<rparr>, 1)))))"

definition save_step ::
  "(metadata \<Rightarrow> string) \<Rightarrow> (string \<Rightarrow> string) \<Rightarrow> string \<Rightarrow> processor \<times> nat \<Rightarrow> string entry
     \<Rightarrow> processor \<times> nat" where
  "save_step dumps_metadata dumps_str index_path acc entry =
     (let r = save_entry dumps_metadata dumps_str index_path (fst acc) entry
      in (fst r, snd acc + snd r))"

text \<open>\<open>save_entries_to_db\<close>: the files of the batch in order, the entries of each in order.\<close>

definition save_entries_to_db ::
  "(metadata \<Rightarrow> string) \<Rightarrow> (string \<Rightarrow> string) \<Rightarrow> processor \<Rightarrow> (string \<times> string entry list) list
     \<Rightarrow> processor \<times> nat" where
  "save_entries_to_db dumps_metadata dumps_str self entries_batch =
     foldl (\<lambda>acc f. foldl (save_step dumps_metadata dumps_str (fst f)) acc (snd f))
       (self, 0) entries_batch"

text \<open>
  An entry is settled in a store when the row of its file and an annotation of that
  row from the entry's index file are there (an entry without file name is never saved).
\<close>

definition settled :: "store \<Rightarrow> string \<Rightarrow> string entry \<Rightarrow> bool" where
  "settled s index_path entry =
     (case filename entry of
        None \<Rightarrow> True
      | Some name \<Rightarrow>
          (case find (\<lambda>row. f_full_path (snd row) = full_path_of index_path name) (files s) of
             None \<Rightarrow> False
           | Some row \<Rightarrow>
               find (\<lambda>r. a_file_id (snd r) = fst row \<and>
                          a_source_index (snd r) = source_index entry) (annotations s) \<noteq> None))"

text \<open>
  A store extends another when its \<open>files\<close> and \<open>annotations\<close> tables have the rows of
  the other, in their places, possibly followed by new ones, and it has at most one
  annotation per \<open>(file_id, source_index)\<close> if the other has.
\<close>

definition extends :: "store \<Rightarrow> store \<Rightarrow> bool" where
  "extends s s' \<longleftrightarrow>
     (\<exists>xs. files s' = files s @ xs) \<and> (\<exists>ys. annotations s' = annotations s @ ys) \<and>
     (annotations_unique s \<longrightarrow> annotations_unique s')"

definition same_rows :: "store \<Rightarrow> store \<Rightarrow> bool" where
  "same_rows s s' \<longleftrightarrow> files s' = files s \<and> annotations s' = annotations s"

definition all_settled :: "store \<Rightarrow> (string \<times> string entry list) list \<Rightarrow> bool" where
  "all_settled s batch \<longleftrightarrow>
     (\<forall>f \<in> set batch. \<forall>e \<in> set (snd f). settled s (fst f) e)"

text \<open>Concrete rows and stores on which the theorems below are instantiated.\<close>

definition ex_file :: file_data where
  "ex_file = \<lparr>f_filename = ''a.bin'', f_full_path = ''exploits/a.bin'',
     f_file_type = Some ''bin'', f_size = Some 0, f_modified_date = None,
     f_category = Some ''exploit'', f_processed = False\<rparr>"

definition ex_file_again :: file_data where
  "ex_file_again = \<lparr>f_filename = ''renamed.bin'', f_full_path = ''exploits/a.bin'',
     f_file_type = None, f_size = Some 7, f_modified_date = None,
     f_category = Some ''tool'', f_processed = True\<rparr>"

definition ex_annotation :: annotation_data where
  "ex_annotation = \<lparr>a_file_id = 4, a_annotation_date = None,
     a_description = Some ''line one'', a_source_index = ''exploits/index_.txt''\<rparr>"

definition ex_annotation_again :: annotation_data where
  "ex_annotation_again = \<lparr>a_file_id = 4, a_annotation_date = None,
     a_description = Some ''another text'', a_source_index = ''exploits/index_.txt''\<rparr>"

definition ex_store :: store where
  "ex_store = \<lparr>files = [(4, ex_file)], annotations = [(9, ex_annotation)], content = []\<rparr>"

definition ex_file_huge :: file_data where
  "ex_file_huge = ex_file\<lparr>f_size := Some (2 ^ 63)\<rparr>"

definition ex_content :: "string \<Rightarrow> string content_data" where
  "ex_content m = \<lparr>c_file_id = 4, c_raw_text = None, c_cleaned_text = None,
     c_metadata = Some m\<rparr>"

text \<open>The row stored for \<open>ex_content m\<close>: the quoted string is no number.\<close>

definition ex_stored :: "string \<Rightarrow> column_value content_data" where
  "ex_stored m = \<lparr>c_file_id = 4, c_raw_text = None, c_cleaned_text = None,
     c_metadata = Some (Text ([CHR 0x22] @ m @ [CHR 0x22]))\<rparr>"

text \<open>\<open>json.dumps\<close> on a string of letters: the string between double quotes.\<close>

definition ex_dumps :: "string \<Rightarrow> string option" where
  "ex_dumps m = Some ([CHR 0x22] @ m @ [CHR 0x22])"


text \<open>The index texts of the scenarios; \<open>CHR 0x0A\<close> is the newline.\<close>

definition scenario_one_entry :: string where
  "scenario_one_entry =
     ''File Name: a.bin'' @ [CHR 0x0A] @ ''Description:'' @ [CHR 0x0A] @ ''line one'' @
     [CHR 0x0A] @ ''tags | x, y'' @ [CHR 0x0A] @ ''///''"

definition scenario_no_name :: string where
  "scenario_no_name = ''tags | x''"

definition block_one :: string where
  "block_one = ''File Name: a.bin'' @ [CHR 0x0A] @ ''Description:'' @ [CHR 0x0A] @
     ''first text'' @ [CHR 0x0A]"

definition block_two :: string where
  "block_two = [CHR 0x0A] @ ''stray line'' @ [CHR 0x0A] @ ''File Name: b.bin''"

definition scenario_two_blocks :: string where
  "scenario_two_blocks = block_one @ ''///'' @ block_two"

definition empty_loop :: loop_state where
  "empty_loop = \<lparr>results = [], errs = [], in_description = False\<rparr>"


text \<open>An entry for a file without extension, by an unnamed author.\<close>

definition ex_readme :: "string entry" where
  "ex_readme = \<lparr>metadata = \<lparr>tags = [''x''], systems = [], hashes = [], author = None,
                              category = ''doc''\<rparr>,
                 description = ''No description available'',
                 source_index = ''Doc/index_.txt'', filename = Some ''README''\<rparr>"

text \<open>
  A processor that writes to \<open>ex_store\<close>, and a batch of one index file with two
  entries, the first for the file that \<open>ex_store\<close> has. The two functions stand in
  for \<open>json.dumps\<close>; no theorem reads their text.
\<close>

definition ex_processor :: processor where
  "ex_processor = \<lparr>dry_run = False, db_manager = ex_store, stats_analyzer = StatsAnalyzer\<rparr>"

definition ex_entry :: "string \<Rightarrow> string entry" where
  "ex_entry name = \<lparr>metadata = \<lparr>tags = [], systems = [], hashes = [], author = None,
                                  category = ''exploit''\<rparr>,
                     description = ''line one'', source_index = ''exploits/index_.txt'',
                     filename = Some name\<rparr>"

definition ex_batch :: "(string \<times> string entry list) list" where
  "ex_batch = [(''exploits/index_.txt'', [ex_entry ''a.bin'', ex_entry ''b.bin''])]"

definition ex_dumps_metadata :: "metadata \<Rightarrow> string" where
  "ex_dumps_metadata m = ''category: '' @ category m"

definition ex_dumps_str :: "string \<Rightarrow> string" where
  "ex_dumps_str t = [CHR 0x22] @ t @ [CHR 0x22]"

text \<open>A manifest of four paths, one of them listed twice, with a blank line.\<close>

definition ex_manifest :: string where
  "ex_manifest = ''a.bin'' @ [CHR 0x0A] @ ''b.bin'' @ [CHR 0x0A] @ [CHR 0x0A] @ ''c.bin'' @
     [CHR 0x0A] @ '' d.bin'' @ [CHR 0x0A] @ ''a.bin'' @ [CHR 0x0A]"

text \<open>
  The exact quotient and product, as rationals. On the counts of the examples (2 of 4,
  2 of 1) every value is a small binary fraction, which the float operations give
  without rounding.
\<close>

definition exact_truediv :: "int \<Rightarrow> int \<Rightarrow> rat" where
  "exact_truediv a b = of_int a / of_int b"

definition exact_mul :: "rat \<Rightarrow> int \<Rightarrow> rat" where
  "exact_mul x n = x * of_int n"


section \<open>Properties of the store\<close>

lemma distinct_filter_one:
  "distinct (map f t) \<Longrightarrow> x \<in> set t \<Longrightarrow> filter (\<lambda>y. f y = f x) t = [x]"
proof (induction t)
  case Nil
  then show ?case by simp
next
  case (Cons y t)
  show ?case
  proof (cases "y = x")
    case True
    with Cons.prems have "f x \<notin> f ` set t" by simp
    then have "\<forall>y \<in> set t. f y \<noteq> f x"
      by (metis imageI)
    then have "filter (\<lambda>y. f y = f x) t = []"
      by (simp add: filter_empty_conv)
    with True show ?thesis by simp
  next
    case False
    with Cons.prems have "x \<in> set t" "f y \<noteq> f x" by auto
    with Cons show ?thesis by simp
  qed
qed

lemma distinct_find_the:
  "distinct (map f t) \<Longrightarrow> x \<in> set t \<Longrightarrow> find (\<lambda>y. f y = f x) t = Some x"
  by (induction t) (auto simp: image_iff)

lemma add_file_overflow: "\<not> size_fits fd \<Longrightarrow> add_file s fd = Inl OverflowError"
  by (simp add: add_file_def)

lemma add_file_returns_fits: "add_file s fd = Inr r \<Longrightarrow> size_fits fd"
  by (cases "size_fits fd") (simp_all add: add_file_def)

lemma add_file_existing:
  assumes "size_fits fd" "files_unique s" "row \<in> set (files s)"
      and "f_full_path (snd row) = f_full_path fd"
  shows "add_file s fd = Inr (fst row, s)"
proof -
  have "find (\<lambda>r. f_full_path (snd r) = f_full_path (snd row)) (files s) = Some row"
    using assms(2,3) distinct_find_the [of "\<lambda>r. f_full_path (snd r)" "files s" row]
    by (simp add: files_unique_def)
  with assms show ?thesis
    by (auto simp: add_file_def)
qed

lemma add_file_fresh:
  assumes "size_fits fd"
      and "\<forall>row \<in> set (files s). f_full_path (snd row) \<noteq> f_full_path fd"
  shows "add_file s fd =
           Inr (next_rowid (files s), s\<lparr>files := files s @ [(next_rowid (files s), fd)]\<rparr>)"
  using assms by (auto simp: add_file_def Let_def)

lemma add_file_unique:
  assumes "files_unique s" "add_file s fd = Inr (i, s')"
  shows "files_unique s'"
proof (cases "\<exists>row \<in> set (files s). f_full_path (snd row) = f_full_path fd")
  case True
  then obtain row where "row \<in> set (files s)" "f_full_path (snd row) = f_full_path fd"
    by blast
  with assms add_file_existing [of fd s row] add_file_returns_fits [OF assms(2)]
  show ?thesis by simp
next
  case False
  with assms(2) add_file_fresh [of fd s] add_file_returns_fits [OF assms(2)]
  have "s' = s\<lparr>files := files s @ [(next_rowid (files s), fd)]\<rparr>" by auto
  with assms(1) False show ?thesis
    by (auto simp: files_unique_def)
qed

lemma add_file_twice_fits:
  assumes "files_unique s" and "f_full_path fd2 = f_full_path fd1"
      and "size_fits fd1" and "size_fits fd2"
  shows "\<exists>i s1. add_file s fd1 = Inr (i, s1) \<and> add_file s1 fd2 = Inr (i, s1) \<and>
           length (rows_with_path s1 (f_full_path fd1)) = 1 \<and>
           (\<forall>row \<in> set (files s). f_full_path (snd row) = f_full_path fd1 \<longrightarrow>
              s1 = s \<and> i = fst row)"
proof (cases "\<exists>row \<in> set (files s). f_full_path (snd row) = f_full_path fd1")
  case True
  then obtain row where row: "row \<in> set (files s)" "f_full_path (snd row) = f_full_path fd1"
    by blast
  have first: "add_file s fd1 = Inr (fst row, s)"
    using assms(3,1) row by (rule add_file_existing)
  have second: "add_file s fd2 = Inr (fst row, s)"
    using assms row add_file_existing [of fd2 s row] by simp
  have "filter (\<lambda>r. f_full_path (snd r) = f_full_path (snd row)) (files s) = [row]"
    using assms(1) row(1) distinct_filter_one [of "\<lambda>r. f_full_path (snd r)" "files s" row]
    by (simp add: files_unique_def)
  then have one: "length (rows_with_path s (f_full_path fd1)) = 1"
    by (simp add: rows_with_path_def row(2))
  have "\<forall>r \<in> set (files s). f_full_path (snd r) = f_full_path fd1 \<longrightarrow> fst row = fst r"
  proof (intro ballI impI)
    fix r assume "r \<in> set (files s)" "f_full_path (snd r) = f_full_path fd1"
    then have "add_file s fd1 = Inr (fst r, s)"
      using assms(1,3) add_file_existing by blast
    with first show "fst row = fst r" by simp
  qed
  with first second one show ?thesis by auto
next
  case False
  define i where "i = next_rowid (files s)"
  define s1 where "s1 = s\<lparr>files := files s @ [(i, fd1)]\<rparr>"
  have first: "add_file s fd1 = Inr (i, s1)"
    using False assms(3) add_file_fresh [of fd1 s] by (simp add: i_def s1_def)
  have uniq: "files_unique s1"
    using assms(1) first by (rule add_file_unique)
  have mem: "(i, fd1) \<in> set (files s1)"
    by (simp add: s1_def)
  have second: "add_file s1 fd2 = Inr (i, s1)"
    using add_file_existing [OF assms(4) uniq mem] assms(2) by simp
  have "filter (\<lambda>r. f_full_path (snd r) = f_full_path (snd (i, fd1))) (files s1) = [(i, fd1)]"
    using uniq mem distinct_filter_one [of "\<lambda>r. f_full_path (snd r)" "files s1" "(i, fd1)"]
    by (simp add: files_unique_def)
  then have one: "length (rows_with_path s1 (f_full_path fd1)) = 1"
    by (simp add: rows_with_path_def)
  from first second one False show ?thesis by auto
qed

text \<open>
  C1. In a store that satisfies \<open>UNIQUE(full_path)\<close>, take two records of the same
  \<open>full_path\<close>. When the \<open>size\<close> of each fits SQLite's 64-bit \<open>INTEGER\<close>, two calls of
  \<open>add_file\<close> both succeed and return the same id; the second call changes nothing at
  all; afterwards exactly one row of \<open>files\<close> holds that path; and a row that held the
  path before the first call is the one returned, with the store left as it was (first
  write wins). Whenever the two calls return, all of this holds. A \<open>size\<close> that does
  not fit makes the call raise \<open>OverflowError\<close>, which is the only way it fails.
\<close>

theorem add_file_twice:
  assumes "files_unique s" and "f_full_path fd2 = f_full_path fd1"
  shows "(size_fits fd1 \<and> size_fits fd2 \<longrightarrow>
            (\<exists>i s1. add_file s fd1 = Inr (i, s1) \<and> add_file s1 fd2 = Inr (i, s1) \<and>
               length (rows_with_path s1 (f_full_path fd1)) = 1 \<and>
               (\<forall>row \<in> set (files s). f_full_path (snd row) = f_full_path fd1 \<longrightarrow>
                  s1 = s \<and> i = fst row))) \<and>
         (add_file s fd1 = Inr (i1, s1) \<and> add_file s1 fd2 = Inr (i2, s2) \<longrightarrow>
            i2 = i1 \<and> s2 = s1 \<and> length (rows_with_path s2 (f_full_path fd1)) = 1 \<and>
            (\<forall>row \<in> set (files s). f_full_path (snd row) = f_full_path fd1 \<longrightarrow>
               s1 = s \<and> i1 = fst row)) \<and>
         (\<not> size_fits fd1 \<longrightarrow> add_file s fd1 = Inl OverflowError)"
proof (intro conjI impI)
  assume "size_fits fd1 \<and> size_fits fd2"
  then show "\<exists>i s1. add_file s fd1 = Inr (i, s1) \<and> add_file s1 fd2 = Inr (i, s1) \<and>
               length (rows_with_path s1 (f_full_path fd1)) = 1 \<and>
               (\<forall>row \<in> set (files s). f_full_path (snd row) = f_full_path fd1 \<longrightarrow>
                  s1 = s \<and> i = fst row)"
    using add_file_twice_fits [OF assms] by blast
next
  assume "\<not> size_fits fd1"
  then show "add_file s fd1 = Inl OverflowError" by (rule add_file_overflow)
next
  assume r: "add_file s fd1 = Inr (i1, s1) \<and> add_file s1 fd2 = Inr (i2, s2)"
  then have "size_fits fd1" "size_fits fd2"
    using add_file_returns_fits by blast+
  from add_file_twice_fits [OF assms this] obtain i s' where
    t: "add_file s fd1 = Inr (i, s')" "add_file s' fd2 = Inr (i, s')"
       "length (rows_with_path s' (f_full_path fd1)) = 1"
       "\<forall>row \<in> set (files s). f_full_path (snd row) = f_full_path fd1 \<longrightarrow>
          s' = s \<and> i = fst row"
    by blast
  from r t(1) have e1: "i1 = i" "s1 = s'" by simp_all
  with r t(2) have e2: "i2 = i" "s2 = s'" by simp_all
  show "i2 = i1" using e1 e2 by simp
  show "s2 = s1" using e1 e2 by simp
  show "length (rows_with_path s2 (f_full_path fd1)) = 1" using t(3) e2 by simp
  show "\<forall>row \<in> set (files s). f_full_path (snd row) = f_full_path fd1 \<longrightarrow>
           s1 = s \<and> i1 = fst row"
    using t(4) e1 by simp
qed

theorem add_file_twice_witness:
  "files_unique ex_store \<and> f_full_path ex_file_again = f_full_path ex_file \<and>
   size_fits ex_file \<and> size_fits ex_file_again \<and>
   add_file ex_store ex_file_again = Inr (4, ex_store) \<and>
   add_file ex_store ex_file = Inr (4, ex_store) \<and>
   length (rows_with_path ex_store (f_full_path ex_file_again)) = 1 \<and>
   \<not> size_fits ex_file_huge \<and> add_file ex_store ex_file_huge = Inl OverflowError"
proof -
  have u: "files_unique ex_store"
    by (simp add: files_unique_def ex_store_def)
  have p: "f_full_path ex_file_again = f_full_path ex_file"
    "f_full_path ex_file = f_full_path ex_file_huge"
    by (simp_all add: ex_file_def ex_file_again_def ex_file_huge_def)
  have f: "size_fits ex_file" "size_fits ex_file_again" "\<not> size_fits ex_file_huge"
    by (simp_all add: size_fits_def fits_int64_def ex_file_def ex_file_again_def
          ex_file_huge_def)
  have m: "(4, ex_file) \<in> set (files ex_store)"
    by (simp add: ex_store_def)
  from add_file_twice [OF u p(1), where ?i1.0 = 4 and ?s1.0 = ex_store and ?i2.0 = 4
      and ?s2.0 = ex_store] f m
  have "add_file ex_store ex_file = Inr (4, ex_store)"
       "add_file ex_store ex_file_again = Inr (4, ex_store)"
       "length (rows_with_path ex_store (f_full_path ex_file)) = 1"
    by auto
  moreover from add_file_twice [OF u p(2), where ?i1.0 = 4 and ?s1.0 = ex_store
      and ?i2.0 = 4 and ?s2.0 = ex_store] f(3)
  have "add_file ex_store ex_file_huge = Inl OverflowError"
    by blast
  ultimately show ?thesis using u p f by simp
qed

subsection \<open>Content\<close>

lemma next_rowid_above: "row \<in> set t \<Longrightarrow> fst row < next_rowid t"
proof -
  assume a: "row \<in> set t"
  then have "fst row \<in> set (map fst t)" by simp
  then have "fst row \<le> Max (set (map fst t))" by (intro Max_ge) auto
  with a show ?thesis by (auto simp: next_rowid_def)
qed

lemma add_content_Inr:
  assumes "add_content dumps s cd = Inr (i, s')"
  obtains m js where "c_metadata cd = Some m" "dumps m = Some js" "fits_int64 (c_file_id cd)"
    "i = next_rowid (content s)"
    "s' = s\<lparr>content := filter (\<lambda>old. c_file_id (snd old) \<noteq> c_file_id cd) (content s)
                  @ [(i, \<lparr>c_file_id = c_file_id cd, c_raw_text = c_raw_text cd,
                          c_cleaned_text = c_cleaned_text cd,
                          c_metadata = Some (numeric_affinity js)\<rparr>)]\<rparr>"
proof (cases "c_metadata cd")
  case None
  with assms show ?thesis
    by (simp add: add_content_def split: if_splits)
next
  case (Some m)
  show ?thesis
  proof (cases "dumps m")
    case None
    with Some assms show ?thesis by (simp add: add_content_def)
  next
    case (Some js)
    note js = this
    show ?thesis
    proof (cases "fits_int64 (c_file_id cd)")
      case False
      with \<open>c_metadata cd = Some m\<close> js assms show ?thesis by (simp add: add_content_def)
    next
      case True
      with \<open>c_metadata cd = Some m\<close> js assms
      have "i = next_rowid (content s)"
        "s' = s\<lparr>content := filter (\<lambda>old. c_file_id (snd old) \<noteq> c_file_id cd) (content s)
                  @ [(i, \<lparr>c_file_id = c_file_id cd, c_raw_text = c_raw_text cd,
                          c_cleaned_text = c_cleaned_text cd,
                          c_metadata = Some (numeric_affinity js)\<rparr>)]\<rparr>"
        by (auto simp: add_content_def Let_def)
      with \<open>c_metadata cd = Some m\<close> js True show ?thesis by (rule that)
    qed
  qed
qed

lemma add_content_returns:
  assumes "c_metadata cd = Some m" "dumps m = Some js" "fits_int64 (c_file_id cd)"
  shows "\<exists>i s'. add_content dumps s cd = Inr (i, s')"
  using assms by (simp add: add_content_def Let_def)

lemma numeric_affinity_examples:
  "numeric_affinity ''5'' = Number ''5'' \<and> numeric_affinity ''1.0'' = Number ''1.0'' \<and>
   numeric_affinity '' -.5e+3 '' = Number '' -.5e+3 '' \<and>
   numeric_affinity ''1e'' = Text ''1e'' \<and> numeric_affinity ''.'' = Text ''.'' \<and>
   numeric_affinity ''{}'' = Text ''{}'' \<and> numeric_affinity ''NaN'' = Text ''NaN'' \<and>
   numeric_affinity [CHR 0x22, CHR ''5'', CHR 0x22] = Text [CHR 0x22, CHR ''5'', CHR 0x22]"
  by code_simp

text \<open>
  C3. When two calls of \<open>add_content\<close> for the same \<open>file_id\<close> both return, the second one
  has replaced the row: the row of the first call is gone, and the rows of \<open>content\<close> for
  that \<open>file_id\<close> are exactly one, the row with the new id that the second call
  returned; it carries the second call's \<open>raw_text\<close> and \<open>cleaned_text\<close> and, as
  metadata, the \<open>json.dumps\<close> text of the second call's metadata as the column stores
  it (the text itself unless it reads as a number). A call returns whenever the
  \<open>file_id\<close> fits 64 bits and the metadata is there and can be serialised.
\<close>

theorem add_content_replaces:
  assumes "add_content dumps s cd1 = Inr (i1, s1)"
      and "add_content dumps s1 cd2 = Inr (i2, s2)"
      and "c_file_id cd2 = c_file_id cd1"
  shows "(\<exists>m js. c_metadata cd2 = Some m \<and> dumps m = Some js \<and>
            content_of s2 (c_file_id cd1) =
              [(i2, \<lparr>c_file_id = c_file_id cd2, c_raw_text = c_raw_text cd2,
                     c_cleaned_text = c_cleaned_text cd2,
                     c_metadata = Some (numeric_affinity js)\<rparr>)]) \<and>
         i2 \<noteq> i1 \<and> i1 \<notin> fst ` set (content s2) \<and>
         (c_metadata cd = Some m' \<and> dumps m' = Some js' \<and> fits_int64 (c_file_id cd) \<longrightarrow>
            (\<exists>i s'. add_content dumps s0 cd = Inr (i, s')))"
proof (intro conjI impI)
  from assms(1) obtain m1 js1 where
    i1: "i1 = next_rowid (content s)" and
    s1: "s1 = s\<lparr>content := filter (\<lambda>old. c_file_id (snd old) \<noteq> c_file_id cd1) (content s)
                  @ [(i1, \<lparr>c_file_id = c_file_id cd1, c_raw_text = c_raw_text cd1,
                          c_cleaned_text = c_cleaned_text cd1,
                          c_metadata = Some (numeric_affinity js1)\<rparr>)]\<rparr>"
    by (rule add_content_Inr)
  from assms(2) obtain m js where
    m: "c_metadata cd2 = Some m" "dumps m = Some js" and
    i2: "i2 = next_rowid (content s1)" and
    s2: "s2 = s1\<lparr>content := filter (\<lambda>old. c_file_id (snd old) \<noteq> c_file_id cd2) (content s1)
                  @ [(i2, \<lparr>c_file_id = c_file_id cd2, c_raw_text = c_raw_text cd2,
                          c_cleaned_text = c_cleaned_text cd2,
                          c_metadata = Some (numeric_affinity js)\<rparr>)]\<rparr>"
    by (rule add_content_Inr)
  have "filter (\<lambda>row. c_file_id (snd row) = c_file_id cd2)
          (filter (\<lambda>old. c_file_id (snd old) \<noteq> c_file_id cd2) (content s1)) = []"
    by (simp add: filter_empty_conv)
  with s2 assms(3) have "content_of s2 (c_file_id cd1) =
      [(i2, \<lparr>c_file_id = c_file_id cd2, c_raw_text = c_raw_text cd2,
             c_cleaned_text = c_cleaned_text cd2, c_metadata = Some (numeric_affinity js)\<rparr>)]"
    by (simp add: content_of_def)
  with m show "\<exists>m js. c_metadata cd2 = Some m \<and> dumps m = Some js \<and>
            content_of s2 (c_file_id cd1) =
              [(i2, \<lparr>c_file_id = c_file_id cd2, c_raw_text = c_raw_text cd2,
                     c_cleaned_text = c_cleaned_text cd2,
                     c_metadata = Some (numeric_affinity js)\<rparr>)]"
    by blast
  define r1 where "r1 = \<lparr>c_file_id = c_file_id cd1, c_raw_text = c_raw_text cd1,
                          c_cleaned_text = c_cleaned_text cd1,
                          c_metadata = Some (numeric_affinity js1)\<rparr>"
  define r2 where "r2 = \<lparr>c_file_id = c_file_id cd2, c_raw_text = c_raw_text cd2,
                          c_cleaned_text = c_cleaned_text cd2,
                          c_metadata = Some (numeric_affinity js)\<rparr>"
  have c1: "content s1 =
      filter (\<lambda>old. c_file_id (snd old) \<noteq> c_file_id cd1) (content s) @ [(i1, r1)]"
    unfolding s1 r1_def by simp
  have c2: "content s2 =
      filter (\<lambda>old. c_file_id (snd old) \<noteq> c_file_id cd2) (content s1) @ [(i2, r2)]"
    unfolding s2 r2_def by simp
  have "(i1, r1) \<in> set (content s1)"
    unfolding c1 by simp
  then have "i1 < next_rowid (content s1)"
    using next_rowid_above [of "(i1, r1)" "content s1"] by simp
  then have less: "i1 < i2" unfolding i2 .
  then show "i2 \<noteq> i1" by simp
  show "i1 \<notin> fst ` set (content s2)"
  proof
    assume "i1 \<in> fst ` set (content s2)"
    then obtain row where row: "row \<in> set (content s2)" "fst row = i1" by auto
    from row(1) have "row = (i2, r2) \<or>
        (row \<in> set (content s1) \<and> c_file_id (snd row) \<noteq> c_file_id cd2)"
      unfolding c2 by auto
    then show False
    proof
      assume "row = (i2, r2)"
      with row(2) less show False by simp
    next
      assume a: "row \<in> set (content s1) \<and> c_file_id (snd row) \<noteq> c_file_id cd2"
      then have "row = (i1, r1) \<or> row \<in> set (content s)"
        unfolding c1 by auto
      then show False
      proof
        assume "row = (i1, r1)"
        then have "c_file_id (snd row) = c_file_id cd1" by (simp add: r1_def)
        with a assms(3) show False by simp
      next
        assume "row \<in> set (content s)"
        then have "fst row < next_rowid (content s)" by (rule next_rowid_above)
        with row(2) show False unfolding i1 by simp
      qed
    qed
  qed
next
  assume "c_metadata cd = Some m' \<and> dumps m' = Some js' \<and> fits_int64 (c_file_id cd)"
  then have "c_metadata cd = Some m'" "dumps m' = Some js'" "fits_int64 (c_file_id cd)"
    by simp_all
  then show "\<exists>i s'. add_content dumps s0 cd = Inr (i, s')"
    by (rule add_content_returns)
qed

theorem add_content_replaces_witness:
  "add_content ex_dumps ex_store (ex_content ''old'') =
     Inr (1, ex_store\<lparr>content := [(1, ex_stored ''old'')]\<rparr>) \<and>
   add_content ex_dumps (ex_store\<lparr>content := [(1, ex_stored ''old'')]\<rparr>) (ex_content ''new'') =
     Inr (2, ex_store\<lparr>content := [(2, ex_stored ''new'')]\<rparr>) \<and>
   c_file_id (ex_content ''new'') = c_file_id (ex_content ''old'') \<and>
   content_of (ex_store\<lparr>content := [(2, ex_stored ''new'')]\<rparr>) 4 = [(2, ex_stored ''new'')] \<and>
   (1::int) \<notin> fst ` set (content (ex_store\<lparr>content := [(2, ex_stored ''new'')]\<rparr>)) \<and>
   c_metadata (ex_content ''new'') = Some ''new'' \<and> fits_int64 (c_file_id (ex_content ''new'')) \<and>
   (\<exists>i s'. add_content ex_dumps init_database (ex_content ''new'') = Inr (i, s'))"
proof -
  let ?s1 = "ex_store\<lparr>content := [(1, ex_stored ''old'')]\<rparr>"
  let ?s2 = "ex_store\<lparr>content := [(2, ex_stored ''new'')]\<rparr>"
  have q: "numeric_affinity [CHR 0x22, CHR ''o'', CHR ''l'', CHR ''d'', CHR 0x22] =
             Text [CHR 0x22, CHR ''o'', CHR ''l'', CHR ''d'', CHR 0x22]"
          "numeric_affinity [CHR 0x22, CHR ''n'', CHR ''e'', CHR ''w'', CHR 0x22] =
             Text [CHR 0x22, CHR ''n'', CHR ''e'', CHR ''w'', CHR 0x22]"
    by code_simp+
  have a: "add_content ex_dumps ex_store (ex_content ''old'') = Inr (1, ?s1)"
    using q by (simp add: add_content_def ex_dumps_def ex_store_def ex_content_def
                  ex_stored_def next_rowid_def fits_int64_def)
  have b: "add_content ex_dumps ?s1 (ex_content ''new'') = Inr (2, ?s2)"
    using q by (simp add: add_content_def ex_dumps_def ex_store_def ex_content_def
                  ex_stored_def next_rowid_def fits_int64_def)
  have c: "c_file_id (ex_content ''new'') = c_file_id (ex_content ''old'')"
    by (simp add: ex_content_def)
  have d: "c_metadata (ex_content ''new'') = Some ''new''"
          "ex_dumps ''new'' = Some ([CHR 0x22] @ ''new'' @ [CHR 0x22])"
          "fits_int64 (c_file_id (ex_content ''new''))"
    by (simp_all add: ex_content_def ex_dumps_def fits_int64_def)
  from add_content_replaces [OF a b c, where cd = "ex_content ''new''" and m' = "''new''"
      and js' = "[CHR 0x22] @ ''new'' @ [CHR 0x22]" and ?s0.0 = init_database] d
  have "content_of ?s2 4 = [(2, ex_stored ''new'')]"
       "(1::int) \<notin> fst ` set (content ?s2)"
       "\<exists>i s'. add_content ex_dumps init_database (ex_content ''new'') = Inr (i, s')"
    by (auto simp: ex_content_def ex_dumps_def ex_stored_def q)
  with a b c d show ?thesis by simp
qed

subsection \<open>Annotations\<close>

lemma find_annotation_the:
  assumes "distinct (map annotation_key t)" "row \<in> set t"
  shows "find (\<lambda>r. a_file_id (snd r) = a_file_id (snd row) \<and>
                    a_source_index (snd r) = a_source_index (snd row)) t = Some row"
proof -
  have "find (\<lambda>r. annotation_key r = annotation_key row) t = Some row"
    using assms by (rule distinct_find_the)
  then show ?thesis by (simp add: annotation_key_def)
qed

lemma add_annotation_existing:
  assumes "annotations_unique s" "row \<in> set (annotations s)"
      and "a_file_id ad = a_file_id (snd row)" "a_source_index ad = a_source_index (snd row)"
  shows "add_annotation s ad = Inr (fst row, s)"
  using find_annotation_the [of "annotations s" row] assms
  by (simp add: add_annotation_def annotations_unique_def)

lemma find_None_key:
  "find (\<lambda>r. a_file_id (snd r) = a_file_id ad \<and> a_source_index (snd r) = a_source_index ad) t
     = None \<Longrightarrow> (a_file_id ad, a_source_index ad) \<notin> set (map annotation_key t)"
  by (force simp: find_None_iff annotation_key_def)

lemma add_annotation_unique:
  assumes "annotations_unique s"
  shows "annotations_unique (after s (add_annotation s ad))"
proof (cases "find (\<lambda>r. a_file_id (snd r) = a_file_id ad \<and>
                          a_source_index (snd r) = a_source_index ad) (annotations s)")
  case None
  from find_None_key [OF None] assms show ?thesis
    using None by (simp add: add_annotation_def after_def Let_def annotations_unique_def
                             annotation_key_def)
next
  case (Some row)
  with assms show ?thesis by (simp add: add_annotation_def after_def)
qed

lemma add_file_annotations: "annotations (after s (add_file s fd)) = annotations s"
  by (auto simp: add_file_def after_def Let_def split: option.splits)

lemma add_content_annotations: "annotations (after s (add_content dumps s cd)) = annotations s"
  by (auto simp: add_content_def after_def Let_def split: option.splits)

lemma apply_op_unique:
  assumes "annotations_unique s"
  shows "annotations_unique (apply_op dumps s op)"
proof (cases op)
  case (AddFile fd)
  with assms show ?thesis by (simp add: annotations_unique_def add_file_annotations)
next
  case (AddAnnotation ad)
  with assms show ?thesis by (simp add: add_annotation_unique)
next
  case (AddContent cd)
  with assms show ?thesis by (simp add: annotations_unique_def add_content_annotations)
next
  case (MarkProcessed i)
  with assms show ?thesis by (simp add: annotations_unique_def mark_as_processed_def)
qed

lemma run_ops_unique:
  "annotations_unique s \<Longrightarrow> annotations_unique (run_ops dumps s ops)"
  unfolding run_ops_def
  by (induction ops arbitrary: s) (simp_all add: apply_op_unique)

section \<open>Properties of the parser\<close>

subsection \<open>No line raises\<close>

lemma str_split_not_Nil: "str_split sep s \<noteq> []"
  by (cases s) (auto split: list.splits)

lemma length_str_split_char:
  "length (str_split [c] s) = Suc (length (filter (\<lambda>x. x = c) s))"
proof (induction s)
  case Nil
  then show ?case by simp
next
  case (Cons x s)
  then show ?case
    using str_split_not_Nil [of "[c]" s]
    by (cases "str_split [c] s") auto
qed

lemma item_split_bar:
  assumes "CHR ''|'' \<in> set line"
  shows "\<exists>t. item (str_split ''|'' line) 1 = Some t"
proof -
  from assms have "filter (\<lambda>x. x = CHR ''|'') line \<noteq> []"
    by (simp add: filter_empty_conv)
  then have "0 < length (filter (\<lambda>x. x = CHR ''|'') line)" by simp
  then have "1 < length (str_split ''|'' line)"
    by (simp add: length_str_split_char)
  then show ?thesis by (simp add: item_def)
qed

lemma prefix_tags_bar: "prefix ''tags |'' line \<Longrightarrow> CHR ''|'' \<in> set line"
  by (auto simp: prefix_def)

lemma prefix_systems_bar: "prefix ''systems |'' line \<Longrightarrow> CHR ''|'' \<in> set line"
  by (auto simp: prefix_def)

lemma process_line_returns: "\<exists>st'. process_line st raw = Inr st'"
proof -
  have a: "prefix ''tags |'' (strip raw) \<Longrightarrow>
      \<exists>t. item (str_split ''|'' (strip raw)) 1 = Some t"
    using item_split_bar prefix_tags_bar by blast
  have b: "prefix ''systems |'' (strip raw) \<Longrightarrow>
      \<exists>t. item (str_split ''|'' (strip raw)) 1 = Some t"
    using item_split_bar prefix_systems_bar by blast
  show ?thesis
    using a b
    by (auto simp: process_line_def Let_def split: option.splits prod.splits)
qed

lemma process_lines_returns: "\<exists>st'. process_lines st ls = Inr st'"
proof (induction ls arbitrary: st)
  case Nil
  then show ?case by simp
next
  case (Cons l ls)
  obtain st1 where "process_line st l = Inr st1"
    using process_line_returns by blast
  with Cons show ?case by simp
qed

subsection \<open>What a block contributes\<close>

lemma process_line_keeps:
  assumes "process_line (cur, d) raw = Inr (cur', d')"
  shows "category (metadata cur') = category (metadata cur) \<and>
         source_index cur' = source_index cur"
  using assms
  by (auto simp: process_line_def Let_def split: option.splits prod.splits if_splits)

lemma process_line_no_name:
  assumes "\<not> prefix ''File Name:'' (strip raw)"
      and "process_line (cur, d) raw = Inr (cur', d')"
  shows "filename cur' = filename cur"
  using assms
  by (auto simp: process_line_def re_file_name_def Let_def
           split: option.splits prod.splits if_splits)

lemma process_lines_keeps:
  "process_lines (cur, d) ls = Inr (cur', d') \<Longrightarrow>
   category (metadata cur') = category (metadata cur) \<and> source_index cur' = source_index cur"
proof (induction ls arbitrary: cur d)
  case Nil
  then show ?case by simp
next
  case (Cons l ls)
  from process_line_returns [of "(cur, d)" l]
  obtain c1 d1 where s1: "process_line (cur, d) l = Inr (c1, d1)"
    by (metis surj_pair)
  with Cons.prems have "process_lines (c1, d1) ls = Inr (cur', d')" by simp
  from Cons.IH [OF this] process_line_keeps [OF s1] show ?case by simp
qed

lemma process_lines_no_name:
  "\<forall>l \<in> set ls. \<not> prefix ''File Name:'' (strip l) \<Longrightarrow>
   process_lines (cur, d) ls = Inr (cur', d') \<Longrightarrow> filename cur' = filename cur"
proof (induction ls arbitrary: cur d)
  case Nil
  then show ?case by simp
next
  case (Cons l ls)
  from process_line_returns [of "(cur, d)" l]
  obtain c1 d1 where s1: "process_line (cur, d) l = Inr (c1, d1)"
    by (metis surj_pair)
  with Cons.prems have rest: "process_lines (c1, d1) ls = Inr (cur', d')" by simp
  from Cons.prems have "\<not> prefix ''File Name:'' (strip l)" by simp
  from process_line_no_name [OF this s1] have "filename c1 = filename cur" .
  moreover from Cons.prems have "\<forall>l \<in> set ls. \<not> prefix ''File Name:'' (strip l)" by simp
  from Cons.IH [OF this rest] have "filename cur' = filename c1" .
  ultimately show ?case by simp
qed

lemma process_entry_blank: "strip b = [] \<Longrightarrow> process_entry self fp st b = Inr st"
  by (simp add: process_entry_def)

lemma process_entry_cases:
  assumes "strip b \<noteq> []"
  shows "\<exists>d. (\<exists>e. process_entry self fp st b =
                  Inr (st\<lparr>results := results st @ [e], in_description := d\<rparr>) \<and>
                category (metadata e) = determine_category self \<and>
                source_index e = source_path_str self \<and>
                (\<exists>n. filename e = Some n \<and> n \<noteq> [])) \<or>
             process_entry self fp st b =
               Inr (st\<lparr>errs := errs st @ [SkippedEntry fp], in_description := d\<rparr>)"
proof -
  let ?cur = "\<lparr>metadata = \<lparr>tags = [], systems = [], hashes = [], author = None,
                             category = determine_category self\<rparr>,
                description = [], source_index = source_path_str self, filename = None\<rparr>"
  obtain cur d where pl: "process_lines (?cur, in_description st)
                   (str_split [CHR 0x0A] (strip b)) = Inr (cur, d)"
    using process_lines_returns by (metis surj_pair)
  from process_lines_keeps [OF pl]
  have k: "category (metadata cur) = determine_category self"
          "source_index cur = source_path_str self" by simp_all
  define dsc where "dsc = (let t = strip (str_join '' '' (description cur))
                           in if t = [] then ''No description available'' else t)"
  define e where "e = \<lparr>metadata = metadata cur, description = dsc,
                        source_index = source_index cur, filename = filename cur\<rparr>"
  have eq: "process_entry self fp st b =
      (if (case filename cur of None \<Rightarrow> False | Some n \<Rightarrow> n \<noteq> [])
       then Inr (st\<lparr>results := results st @ [e], in_description := d\<rparr>)
       else Inr (st\<lparr>errs := errs st @ [SkippedEntry fp], in_description := d\<rparr>))"
    using assms pl by (simp add: process_entry_def Let_def dsc_def e_def)
  show ?thesis
  proof (cases "case filename cur of None \<Rightarrow> False | Some n \<Rightarrow> n \<noteq> []")
    case True
    then obtain n where "filename cur = Some n" "n \<noteq> []"
      by (auto split: option.splits)
    with eq k True have "process_entry self fp st b =
        Inr (st\<lparr>results := results st @ [e], in_description := d\<rparr>) \<and>
        category (metadata e) = determine_category self \<and>
        source_index e = source_path_str self \<and> (\<exists>n. filename e = Some n \<and> n \<noteq> [])"
      by (simp add: e_def)
    then show ?thesis by blast
  next
    case False
    with eq have "process_entry self fp st b =
        Inr (st\<lparr>errs := errs st @ [SkippedEntry fp], in_description := d\<rparr>)"
      by simp
    then show ?thesis by blast
  qed
qed

lemma process_entry_no_name:
  assumes "strip b \<noteq> []"
      and "\<forall>l \<in> set (str_split [CHR 0x0A] (strip b)). \<not> prefix ''File Name:'' (strip l)"
  shows "\<exists>d. process_entry self fp st b =
               Inr (st\<lparr>errs := errs st @ [SkippedEntry fp], in_description := d\<rparr>)"
proof -
  let ?cur = "\<lparr>metadata = \<lparr>tags = [], systems = [], hashes = [], author = None,
                             category = determine_category self\<rparr>,
                description = [], source_index = source_path_str self, filename = None\<rparr>"
  obtain cur d where pl: "process_lines (?cur, in_description st)
                   (str_split [CHR 0x0A] (strip b)) = Inr (cur, d)"
    using process_lines_returns by (metis surj_pair)
  from process_lines_no_name [OF assms(2) pl] have "filename cur = None" by simp
  with assms(1) pl show ?thesis
    by (auto simp: process_entry_def Let_def)
qed

lemma process_entries_account:
  "\<exists>new k d. process_entries self fp st bs =
       Inr (st\<lparr>results := results st @ new,
               errs := errs st @ replicate k (SkippedEntry fp), in_description := d\<rparr>) \<and>
     length new + k = length (filter (\<lambda>b. strip b \<noteq> []) bs) \<and>
     (\<forall>e \<in> set new. category (metadata e) = determine_category self \<and>
         source_index e = source_path_str self \<and> (\<exists>n. filename e = Some n \<and> n \<noteq> []))"
proof (induction bs arbitrary: st)
  case Nil
  have "st = st\<lparr>results := results st @ [], errs := errs st @ replicate 0 (SkippedEntry fp),
                 in_description := in_description st\<rparr>" by simp
  then have "process_entries self fp st [] =
       Inr (st\<lparr>results := results st @ [],
               errs := errs st @ replicate 0 (SkippedEntry fp),
               in_description := in_description st\<rparr>) \<and>
     length ([] :: string entry list) + 0 = length (filter (\<lambda>b. strip b \<noteq> []) []) \<and>
     (\<forall>e \<in> set ([] :: string entry list). category (metadata e) = determine_category self \<and>
         source_index e = source_path_str self \<and> (\<exists>n. filename e = Some n \<and> n \<noteq> []))"
    by simp
  then show ?case by blast
next
  case (Cons b bs)
  show ?case
  proof (cases "strip b = []")
    case True
    then have "process_entries self fp st (b # bs) = process_entries self fp st bs"
      by (simp add: process_entry_blank)
    with Cons [of st] True show ?thesis by simp
  next
    case False
    from process_entry_cases [OF False, of self fp st] obtain d where
      d: "(\<exists>e. process_entry self fp st b =
                  Inr (st\<lparr>results := results st @ [e], in_description := d\<rparr>) \<and>
                category (metadata e) = determine_category self \<and>
                source_index e = source_path_str self \<and>
                (\<exists>n. filename e = Some n \<and> n \<noteq> [])) \<or>
             process_entry self fp st b =
               Inr (st\<lparr>errs := errs st @ [SkippedEntry fp], in_description := d\<rparr>)"
      by blast
    then show ?thesis
    proof
      assume "\<exists>e. process_entry self fp st b =
                  Inr (st\<lparr>results := results st @ [e], in_description := d\<rparr>) \<and>
                category (metadata e) = determine_category self \<and>
                source_index e = source_path_str self \<and>
                (\<exists>n. filename e = Some n \<and> n \<noteq> [])"
      then obtain e where e: "process_entry self fp st b =
                  Inr (st\<lparr>results := results st @ [e], in_description := d\<rparr>)"
          "category (metadata e) = determine_category self"
          "source_index e = source_path_str self"
          "\<exists>n. filename e = Some n \<and> n \<noteq> []" by blast
      let ?st1 = "st\<lparr>results := results st @ [e], in_description := d\<rparr>"
      from Cons [of ?st1] obtain new k d' where
        r: "process_entries self fp ?st1 bs =
              Inr (?st1\<lparr>results := results ?st1 @ new,
               errs := errs ?st1 @ replicate k (SkippedEntry fp), in_description := d'\<rparr>)"
           "length new + k = length (filter (\<lambda>b. strip b \<noteq> []) bs)"
           "\<forall>e \<in> set new. category (metadata e) = determine_category self \<and>
              source_index e = source_path_str self \<and> (\<exists>n. filename e = Some n \<and> n \<noteq> [])"
        by blast
      have "process_entries self fp st (b # bs) =
           Inr (st\<lparr>results := results st @ (e # new),
               errs := errs st @ replicate k (SkippedEntry fp), in_description := d'\<rparr>)"
        using e(1) r(1) by simp
      moreover have "length (e # new) + k = length (filter (\<lambda>b. strip b \<noteq> []) (b # bs))"
        using r(2) False by simp
      moreover have "\<forall>e \<in> set (e # new). category (metadata e) = determine_category self \<and>
              source_index e = source_path_str self \<and> (\<exists>n. filename e = Some n \<and> n \<noteq> [])"
        using e r(3) by simp
      ultimately show ?thesis by blast
    next
      assume e: "process_entry self fp st b =
               Inr (st\<lparr>errs := errs st @ [SkippedEntry fp], in_description := d\<rparr>)"
      let ?st1 = "st\<lparr>errs := errs st @ [SkippedEntry fp], in_description := d\<rparr>"
      from Cons [of ?st1] obtain new k d' where
        r: "process_entries self fp ?st1 bs =
              Inr (?st1\<lparr>results := results ?st1 @ new,
               errs := errs ?st1 @ replicate k (SkippedEntry fp), in_description := d'\<rparr>)"
           "length new + k = length (filter (\<lambda>b. strip b \<noteq> []) bs)"
           "\<forall>e \<in> set new. category (metadata e) = determine_category self \<and>
              source_index e = source_path_str self \<and> (\<exists>n. filename e = Some n \<and> n \<noteq> [])"
        by blast
      have "process_entries self fp st (b # bs) =
           Inr (st\<lparr>results := results st @ new,
               errs := errs st @ replicate (Suc k) (SkippedEntry fp), in_description := d'\<rparr>)"
        using e r(1) by (simp add: replicate_app_Cons_same)
      moreover have "length new + Suc k = length (filter (\<lambda>b. strip b \<noteq> []) (b # bs))"
        using r(2) False by simp
      ultimately show ?thesis using r(3) by blast
    qed
  qed
qed

lemma parse_file_content:
  "\<exists>new k. parse_file self fp (Inr body) =
       (new, self\<lparr>source_path := Some (Path fp),
                  errors := errors self @ replicate k (SkippedEntry fp)\<rparr>) \<and>
     length new + k = length (filter (\<lambda>b. strip b \<noteq> []) (str_split ''///'' body)) \<and>
     (\<forall>e \<in> set new. category (metadata e) = scan_parts (parts (Path fp)) \<and>
         source_index e = path_str (Path fp) \<and> (\<exists>n. filename e = Some n \<and> n \<noteq> []))"
proof -
  let ?self1 = "self\<lparr>source_path := Some (Path fp)\<rparr>"
  let ?st = "\<lparr>results = [], errs = errors ?self1, in_description = False\<rparr>"
  from process_entries_account [of ?self1 fp ?st "str_split ''///'' body"]
  obtain new k d where
    r: "process_entries ?self1 fp ?st (str_split ''///'' body) =
          Inr (?st\<lparr>results := results ?st @ new,
               errs := errs ?st @ replicate k (SkippedEntry fp), in_description := d\<rparr>)"
       "length new + k = length (filter (\<lambda>b. strip b \<noteq> []) (str_split ''///'' body))"
       "\<forall>e \<in> set new. category (metadata e) = determine_category ?self1 \<and>
         source_index e = source_path_str ?self1 \<and> (\<exists>n. filename e = Some n \<and> n \<noteq> [])"
    by blast
  have "parse_file self fp (Inr body) =
       (new, self\<lparr>source_path := Some (Path fp),
                  errors := errors self @ replicate k (SkippedEntry fp)\<rparr>)"
    using r(1) by (simp add: parse_file_def Let_def)
  moreover have "determine_category ?self1 = scan_parts (parts (Path fp))"
    by (simp add: determine_category_def)
  moreover have "source_path_str ?self1 = path_str (Path fp)"
    by (simp add: source_path_str_def)
  ultimately show ?thesis using r(2,3) by auto
qed

lemma parse_file_unreadable:
  "parse_file self fp (Inl msg) =
     ([], self\<lparr>source_path := Some (Path fp), errors := errors self @ [ReadFailed fp msg]\<rparr>)"
  by (simp add: parse_file_def)

subsection \<open>The scenarios\<close>

text \<open>
  C4. From a fresh parser, the text \<open>scenario_one_entry\<close> read from any path parses to
  exactly one entry: file name \<open>a.bin\<close>, description \<open>line one\<close>, tags \<open>x\<close> and \<open>y\<close>,
  no systems, no hashes, no author, and the category that the classification gives for
  the path of the index file; no error is recorded.
\<close>

theorem parse_scenario_one_entry:
  "parse_file IndexParser file_path (Inr scenario_one_entry) =
     ([\<lparr>metadata = \<lparr>tags = [''x'', ''y''], systems = [], hashes = [], author = None,
                    category = scan_parts (parts (Path file_path))\<rparr>,
        description = ''line one'', source_index = path_str (Path file_path),
        filename = Some ''a.bin''\<rparr>],
      \<lparr>errors = [], source_path = Some (Path file_path)\<rparr>)"
  by code_simp

text \<open>
  C5. \<open>parse_file\<close> has a result on every input. On a text that was read, it returns
  entries and appends only skipped-entry errors naming the file, one entry or one error
  for each block that is not blank, so no exception of the loop reaches the \<open>except\<close>
  branch. A block that is not blank and none of whose lines starts, once stripped,
  with \<open>File Name:\<close> adds no entry and appends exactly one such error; so does the text
  \<open>tags | x\<close> as a whole file. A file that cannot be read or decoded gives no entry and
  one read error.
\<close>

theorem parse_file_never_raises:
  "(\<exists>new k. parse_file self fp (Inr body) =
        (new, self\<lparr>source_path := Some (Path fp),
                   errors := errors self @ replicate k (SkippedEntry fp)\<rparr>) \<and>
      length new + k = length (filter (\<lambda>b. strip b \<noteq> []) (str_split ''///'' body))) \<and>
   (strip b \<noteq> [] \<and>
    (\<forall>l \<in> set (str_split [CHR 0x0A] (strip b)). \<not> prefix ''File Name:'' (strip l)) \<longrightarrow>
      (\<exists>d. process_entry self fp st b =
             Inr (st\<lparr>errs := errs st @ [SkippedEntry fp], in_description := d\<rparr>))) \<and>
   parse_file self fp (Inr scenario_no_name) =
     ([], self\<lparr>source_path := Some (Path fp), errors := errors self @ [SkippedEntry fp]\<rparr>) \<and>
   parse_file self fp (Inl msg) =
     ([], self\<lparr>source_path := Some (Path fp), errors := errors self @ [ReadFailed fp msg]\<rparr>)"
proof (intro conjI impI)
  show "\<exists>new k. parse_file self fp (Inr body) =
        (new, self\<lparr>source_path := Some (Path fp),
                   errors := errors self @ replicate k (SkippedEntry fp)\<rparr>) \<and>
      length new + k = length (filter (\<lambda>b. strip b \<noteq> []) (str_split ''///'' body))"
    using parse_file_content [of self fp body] by blast
next
  assume "strip b \<noteq> [] \<and>
    (\<forall>l \<in> set (str_split [CHR 0x0A] (strip b)). \<not> prefix ''File Name:'' (strip l))"
  then show "\<exists>d. process_entry self fp st b =
             Inr (st\<lparr>errs := errs st @ [SkippedEntry fp], in_description := d\<rparr>)"
    using process_entry_no_name by blast
next
  show "parse_file self fp (Inr scenario_no_name) =
     ([], self\<lparr>source_path := Some (Path fp), errors := errors self @ [SkippedEntry fp]\<rparr>)"
    by code_simp simp
next
  show "parse_file self fp (Inl msg) =
     ([], self\<lparr>source_path := Some (Path fp), errors := errors self @ [ReadFailed fp msg]\<rparr>)"
    by (rule parse_file_unreadable)
qed

theorem parse_file_never_raises_witness:
  "strip scenario_no_name \<noteq> [] \<and>
   filter (\<lambda>l. prefix ''File Name:'' (strip l))
     (str_split [CHR 0x0A] (strip scenario_no_name)) = [] \<and>
   (\<exists>d. process_entry IndexParser ''exploits/index_.txt'' empty_loop scenario_no_name =
          Inr (empty_loop\<lparr>errs := errs empty_loop @ [SkippedEntry ''exploits/index_.txt''],
                          in_description := d\<rparr>))"
proof -
  have a: "strip scenario_no_name \<noteq> []"
    by code_simp
  have b: "filter (\<lambda>l. prefix ''File Name:'' (strip l))
     (str_split [CHR 0x0A] (strip scenario_no_name)) = []"
    by code_simp
  then have c: "\<forall>l \<in> set (str_split [CHR 0x0A] (strip scenario_no_name)).
     \<not> prefix ''File Name:'' (strip l)"
    by (simp add: filter_empty_conv)
  from parse_file_never_raises
         [of IndexParser "''exploits/index_.txt''" "[]" scenario_no_name empty_loop "[]"] a c
  have "\<exists>d. process_entry IndexParser ''exploits/index_.txt'' empty_loop scenario_no_name =
          Inr (empty_loop\<lparr>errs := errs empty_loop @ [SkippedEntry ''exploits/index_.txt''],
                          in_description := d\<rparr>)"
    by blast
  with a b show ?thesis by blast
qed

text \<open>
  C10. The flag \<open>in_description\<close> is not reset between blocks. The text
  \<open>scenario_two_blocks\<close> splits into \<open>block_one\<close>, which ends while its description is
  being collected, and \<open>block_two\<close>, none of whose lines is \<open>Description:\<close>. Parsed
  after \<open>block_one\<close>, the second entry gets the line before its \<open>File Name:\<close> line as
  its description; parsed alone, \<open>block_two\<close> gets the placeholder.
\<close>

theorem in_description_carries_over:
  "str_split ''///'' scenario_two_blocks = [block_one, block_two] \<and>
   ''Description:'' \<notin> set (map strip (str_split [CHR 0x0A] block_two)) \<and>
   map description (fst (parse_file IndexParser fp (Inr scenario_two_blocks))) =
     [''first text'', ''stray line''] \<and>
   map filename (fst (parse_file IndexParser fp (Inr scenario_two_blocks))) =
     [Some ''a.bin'', Some ''b.bin''] \<and>
   map description (fst (parse_file IndexParser fp (Inr block_two))) =
     [''No description available'']"
proof (intro conjI)
  show "str_split ''///'' scenario_two_blocks = [block_one, block_two]"
    by code_simp
  show "''Description:'' \<notin> set (map strip (str_split [CHR 0x0A] block_two))"
    by code_simp
  show "map description (fst (parse_file IndexParser fp (Inr scenario_two_blocks))) =
     [''first text'', ''stray line'']"
    by code_simp
  show "map filename (fst (parse_file IndexParser fp (Inr scenario_two_blocks))) =
     [Some ''a.bin'', Some ''b.bin'']"
    by code_simp
  show "map description (fst (parse_file IndexParser fp (Inr block_two))) =
     [''No description available'']"
    by code_simp
qed

subsection \<open>The category of an index file\<close>

lemma find_append_case:
  "find P (xs @ ys) = (case find P xs of None \<Rightarrow> find P ys | Some x \<Rightarrow> Some x)"
  by (induction xs) auto

lemma scan_parts_spec: "scan_parts segments = spec_classify segments"
proof (induction segments)
  case Nil
  then show ?case by (simp add: spec_classify_def)
next
  case (Cons seg rest)
  then show ?case
    by (simp add: spec_classify_def find_append_case categories_def spec_rules_def)
qed

text \<open>
  C6. For a parser whose \<open>source_path\<close> is a path, \<open>_determine_category\<close> gives what the
  specification's wording gives on the segments of the path: segments in order, rules in
  table order, exact match, first match wins, \<open>unknown\<close> without a match. Every entry
  that \<open>parse_file\<close> returns for an index file carries this category, whatever the file
  holds.
\<close>

theorem determine_category_first_match:
  "determine_category (self\<lparr>source_path := Some p\<rparr>) = spec_classify (parts p) \<and>
   (\<forall>e \<in> set (fst (parse_file self fp opened)).
      category (metadata e) = spec_classify (parts (Path fp)))"
proof
  show "determine_category (self\<lparr>source_path := Some p\<rparr>) = spec_classify (parts p)"
    by (simp add: determine_category_def scan_parts_spec)
next
  show "\<forall>e \<in> set (fst (parse_file self fp opened)).
      category (metadata e) = spec_classify (parts (Path fp))"
  proof (cases opened)
    case (Inl msg)
    then show ?thesis by (simp add: parse_file_unreadable)
  next
    case (Inr body)
    with parse_file_content [of self fp body] show ?thesis
      by (auto simp: scan_parts_spec)
  qed
qed

theorem determine_category_first_match_witness:
  "determine_category (IndexParser\<lparr>source_path := Some (Path ''data/exploits/index_.txt'')\<rparr>)
     = ''exploit'' \<and>
   set (map (\<lambda>e. category (metadata e))
          (fst (parse_file IndexParser ''data/exploits/index_.txt'' (Inr scenario_two_blocks))))
     = {''exploit''}"
proof -
  have a: "spec_classify (parts (Path ''data/exploits/index_.txt'')) = ''exploit''"
    by code_simp
  have b: "fst (parse_file IndexParser ''data/exploits/index_.txt'' (Inr scenario_two_blocks))
             \<noteq> []"
    by code_simp
  from determine_category_first_match
         [where self = IndexParser and p = "Path ''data/exploits/index_.txt''"
            and fp = "''data/exploits/index_.txt''" and opened = "Inr scenario_two_blocks"] a
  have c: "determine_category
             (IndexParser\<lparr>source_path := Some (Path ''data/exploits/index_.txt'')\<rparr>)
             = ''exploit''"
    and d: "\<forall>e \<in> set (fst (parse_file IndexParser ''data/exploits/index_.txt''
                (Inr scenario_two_blocks))). category (metadata e) = ''exploit''"
    by simp_all
  from b d have "set (map (\<lambda>e. category (metadata e))
          (fst (parse_file IndexParser ''data/exploits/index_.txt'' (Inr scenario_two_blocks))))
     = {''exploit''}"
    by (cases "fst (parse_file IndexParser ''data/exploits/index_.txt''
                (Inr scenario_two_blocks))") auto
  with c show ?thesis by simp
qed

section \<open>Properties of the coverage analyzer\<close>

lemma set_strip: "set (strip s) \<subseteq> set s"
proof -
  have "set (strip s) \<subseteq> set (rev (dropWhile is_space s))"
    unfolding strip_def using set_dropWhileD by fastforce
  also have "\<dots> \<subseteq> set s"
    using set_dropWhileD by fastforce
  finally show ?thesis .
qed

lemma file_name_colon:
  assumes "prefix ''File Name:'' (strip line)"
  shows "\<exists>r. item (split_once CHR '':'' line) 1 = Some r"
proof -
  from assms have "CHR '':'' \<in> set (strip line)"
    by (auto simp: prefix_def)
  with set_strip have "CHR '':'' \<in> set line" by blast
  then show ?thesis by (simp add: split_once_def item_def)
qed

lemma find_file_name_returns: "\<exists>r. find_file_name ls = Inr r"
proof (induction ls)
  case Nil
  then show ?case by simp
next
  case (Cons line rest)
  show ?case
  proof (cases "prefix ''File Name:'' (strip line)")
    case True
    with file_name_colon obtain r where "item (split_once CHR '':'' line) 1 = Some r"
      by blast
    with True Cons show ?thesis by simp
  next
    case False
    with Cons show ?thesis by simp
  qed
qed

lemma scan_entries_sets:
  "\<exists>self'. scan_entries cat self es = Inr self' \<and> all_files self' = all_files self \<and>
     indexed_files self' = indexed_files self \<union> set (names_of es)"
proof (induction es arbitrary: self)
  case Nil
  then show ?case by (simp add: names_of_def)
next
  case (Cons entry es)
  show ?case
  proof (cases "strip entry = []")
    case True
    with Cons [of self] show ?thesis by (simp add: names_of_def)
  next
    case False
    obtain r where r: "find_file_name (str_split [CHR 0x0A] entry) = Inr r"
      using find_file_name_returns by blast
    show ?thesis
    proof (cases r)
      case None
      with r False Cons [of self] show ?thesis by (simp add: names_of_def)
    next
      case (Some name)
      let ?self1 = "self\<lparr>indexed_files := insert name (indexed_files self),
          category_count := (category_count self)(cat := category_count self cat + 1)\<rparr>"
      from Cons [of ?self1] obtain self' where
        "scan_entries cat ?self1 es = Inr self'" "all_files self' = all_files ?self1"
        "indexed_files self' = indexed_files ?self1 \<union> set (names_of es)" by blast
      with r Some False show ?thesis by (simp add: names_of_def)
    qed
  qed
qed

lemma process_index_files_sets:
  "\<exists>self'. process_index_files self fs = Inr self' \<and> all_files self' = all_files self \<and>
     indexed_files self' =
       indexed_files self \<union> set (concat (map (\<lambda>f. recorded_names (snd f)) fs))"
proof (induction fs arbitrary: self)
  case Nil
  then show ?case by simp
next
  case (Cons f fs)
  obtain p body where f: "f = (p, body)" by (cases f)
  from scan_entries_sets [of "coverage_determine_category p" self "str_split ''///'' body"]
  obtain self1 where s1: "process_index_file self p body = Inr self1"
     "all_files self1 = all_files self"
     "indexed_files self1 = indexed_files self \<union> set (recorded_names body)"
    by (auto simp: process_index_file_def recorded_names_def)
  from Cons [of self1] obtain self' where
     "process_index_files self1 fs = Inr self'" "all_files self' = all_files self1"
     "indexed_files self' =
       indexed_files self1 \<union> set (concat (map (\<lambda>f. recorded_names (snd f)) fs))" by blast
  with s1 f show ?case by auto
qed

lemma coverage_run_eq:
  "coverage_run truediv mul manifest index_files =
     Inr \<lparr>r_total_files = int (card (set (manifest_paths manifest))),
          r_indexed_files =
            int (card (set (concat (map (\<lambda>f. recorded_names (snd f)) index_files)))),
          r_coverage_percent =
            (if card (set (manifest_paths manifest)) = 0 then PyInt 0
             else PyFloat (mul
                    (truediv
                       (int (card (set (concat (map (\<lambda>f. recorded_names (snd f)) index_files)))))
                       (int (card (set (manifest_paths manifest)))))
                    100)),
          r_missing_files =
            int (card (set (manifest_paths manifest))) -
            int (card (set (concat (map (\<lambda>f. recorded_names (snd f)) index_files))))\<rparr>"
proof -
  from process_index_files_sets [of "load_all_files CoverageAnalyzer manifest" index_files]
  obtain a where a: "process_index_files (load_all_files CoverageAnalyzer manifest) index_files
       = Inr a" "all_files a = all_files (load_all_files CoverageAnalyzer manifest)"
     "indexed_files a = indexed_files (load_all_files CoverageAnalyzer manifest) \<union>
         set (concat (map (\<lambda>f. recorded_names (snd f)) index_files))" by blast
  have "all_files a = set (manifest_paths manifest)"
    using a(2) by (simp add: load_all_files_def CoverageAnalyzer_def)
  moreover have "indexed_files a = set (concat (map (\<lambda>f. recorded_names (snd f)) index_files))"
    using a(3) by (simp add: load_all_files_def CoverageAnalyzer_def)
  ultimately show ?thesis
    using a(1) by (simp add: coverage_run_def generate_report_def Let_def)
qed

text \<open>
  C7, as the code has it. A run of the analyzer never raises and reports: as total the
  number of distinct manifest lines that are not blank (stripped); as indexed the number
  of distinct file names recorded from the index files, whether the manifest lists
  them or not; as missing the total minus the indexed, a negative number when more names
  are recorded than the manifest has paths; as percentage the integer 0 when the total
  is 0 and otherwise the float that dividing indexed by total and multiplying the
  quotient by 100 gives, with the rounding of each of the two float operations.
\<close>

theorem coverage_report_counts:
  "coverage_run truediv mul manifest index_files =
     Inr \<lparr>r_total_files = int (card (set (manifest_paths manifest))),
          r_indexed_files =
            int (card (set (concat (map (\<lambda>f. recorded_names (snd f)) index_files)))),
          r_coverage_percent =
            (if card (set (manifest_paths manifest)) = 0 then PyInt 0
             else PyFloat (mul
                    (truediv
                       (int (card (set (concat (map (\<lambda>f. recorded_names (snd f)) index_files)))))
                       (int (card (set (manifest_paths manifest)))))
                    100)),
          r_missing_files =
            int (card (set (manifest_paths manifest))) -
            int (card (set (concat (map (\<lambda>f. recorded_names (snd f)) index_files))))\<rparr>"
  by (rule coverage_run_eq)

theorem coverage_report_counts_witness:
  "coverage_run exact_truediv exact_mul ex_manifest
       [(''exploits/index_.txt'', scenario_two_blocks)] =
     Inr \<lparr>r_total_files = 4, r_indexed_files = 2, r_coverage_percent = PyFloat 50,
          r_missing_files = 2\<rparr>"
proof -
  have a: "card (set (manifest_paths ex_manifest)) = 4"
    by code_simp
  have b: "card (set (concat (map (\<lambda>f. recorded_names (snd f))
             [(''exploits/index_.txt'', scenario_two_blocks)]))) = 2"
    by code_simp
  show ?thesis
    unfolding coverage_report_counts [of exact_truediv exact_mul ex_manifest
        "[(''exploits/index_.txt'', scenario_two_blocks)]"] a b
    by (simp add: exact_truediv_def exact_mul_def)
qed

text \<open>
  C7 as stated fails: with one path in the manifest and an index file naming two files,
  neither of them in the manifest, the report has 2 indexed files of 1, a coverage of
  200 and -1 missing files.
\<close>

theorem coverage_counts_names_outside_manifest:
  "coverage_run exact_truediv exact_mul ''docs/readme.txt''
       [(''exploits/index_.txt'', scenario_two_blocks)] =
     Inr \<lparr>r_total_files = 1, r_indexed_files = 2, r_coverage_percent = PyFloat 200,
          r_missing_files = - 1\<rparr> \<and>
   set (manifest_paths ''docs/readme.txt'') \<inter> set (recorded_names scenario_two_blocks) = {}"
proof -
  have a: "card (set (manifest_paths ''docs/readme.txt'')) = 1"
    by code_simp
  have b: "card (set (concat (map (\<lambda>f. recorded_names (snd f))
             [(''exploits/index_.txt'', scenario_two_blocks)]))) = 2"
    by code_simp
  have c: "set (manifest_paths ''docs/readme.txt'') \<inter>
             set (recorded_names scenario_two_blocks) = {}"
    by code_simp
  show ?thesis
    unfolding coverage_run_eq a b using c by (simp add: exact_truediv_def exact_mul_def)
qed

text \<open>
  C8 fails on the code: the analyzer's table gives \<open>error\<close> where the parser's gives
  \<open>systemerror\<close>, and the analyzer matches a marker anywhere inside a segment where the
  parser wants the whole segment.
\<close>

theorem coverage_category_differs:
  "coverage_determine_category ''data/systemerror/index_.txt'' = ''error'' \<and>
   determine_category (IndexParser\<lparr>source_path := Some (Path ''data/systemerror/index_.txt'')\<rparr>)
     = ''systemerror'' \<and>
   coverage_determine_category ''data/my_exploits/index_.txt'' = ''exploit'' \<and>
   determine_category (IndexParser\<lparr>source_path := Some (Path ''data/my_exploits/index_.txt'')\<rparr>)
     = ''unknown''"
  by code_simp

section \<open>Properties of the statistics\<close>

lemma add_entry_counters:
  assumes "d_metadata entry = Some m" "d_category m = Some c" "d_author m = Some a"
      and "d_filename entry = Some name"
  shows "total_entries (add_entry self entry) = total_entries self + 1"
    and "category_counter (add_entry self entry) =
           bump (category_counter self) (or_default c ''unknown'')"
    and "authors (add_entry self entry) = bump (authors self) (or_default a ''unknown'')"
    and "file_types (add_entry self entry) = bump (file_types self) (file_type_of name)"
  using assms by (simp_all add: add_entry_def Let_def split: option.splits)

text \<open>
  C9, as the code has it. For an entry that has the keys \<open>metadata\<close> (with \<open>category\<close>
  and \<open>author\<close>) and \<open>filename\<close>, as every entry of the parser has, \<open>add_entry\<close> adds one
  to exactly one bucket of each of the three counters: the category, or \<open>unknown\<close> when
  it is \<open>None\<close> or empty; the author, or \<open>unknown\<close> when it is \<open>None\<close> or empty; the
  extension of the file name without its dot, or \<open>no_extension\<close> when there is none.
\<close>

theorem add_entry_counts_once:
  assumes "d_metadata entry = Some m" "d_category m = Some c" "d_author m = Some a"
      and "d_filename entry = Some name"
  shows "category_counter (add_entry self entry) =
           bump (category_counter self)
             (case c of None \<Rightarrow> ''unknown'' | Some v \<Rightarrow> if v = [] then ''unknown'' else v) \<and>
         authors (add_entry self entry) =
           bump (authors self)
             (case a of None \<Rightarrow> ''unknown'' | Some v \<Rightarrow> if v = [] then ''unknown'' else v) \<and>
         file_types (add_entry self entry) =
           bump (file_types self)
             (if dropWhile (\<lambda>c. c = CHR ''.'') (suffix_of (Path name)) = [] then ''no_extension''
              else dropWhile (\<lambda>c. c = CHR ''.'') (suffix_of (Path name))) \<and>
         total_entries (add_entry self entry) = total_entries self + 1"
  using add_entry_counters [OF assms]
  by (simp add: or_default_def file_type_of_def)

theorem add_entry_counts_once_witness:
  "d_metadata (as_dict ex_readme) =
     Some \<lparr>d_category = Some (Some ''doc''), d_tags = Some [''x''], d_systems = Some [],
           d_author = Some None\<rparr> \<and>
   d_filename (as_dict ex_readme) = Some ''README'' \<and>
   category_counter (add_entry StatsAnalyzer (as_dict ex_readme)) ''doc'' = 1 \<and>
   authors (add_entry StatsAnalyzer (as_dict ex_readme)) ''unknown'' = 1 \<and>
   file_types (add_entry StatsAnalyzer (as_dict ex_readme)) ''no_extension'' = 1 \<and>
   total_entries (add_entry StatsAnalyzer (as_dict ex_readme)) = 1"
proof -
  have m: "d_metadata (as_dict ex_readme) = Some \<lparr>d_category = Some (Some ''doc''),
      d_tags = Some [''x''], d_systems = Some [], d_author = Some None\<rparr>"
    by (simp add: as_dict_def ex_readme_def)
  have n: "d_filename (as_dict ex_readme) = Some ''README''"
    by (simp add: as_dict_def ex_readme_def)
  have s: "suffix_of (Path ''README'') = []"
    by code_simp
  from add_entry_counts_once [OF m _ _ n, of "Some ''doc''" None StatsAnalyzer] s
  show ?thesis
    using m n by (simp add: bump_def StatsAnalyzer_def)
qed

text \<open>
  C9 as stated fails: a file name without extension is counted under \<open>no_extension\<close>,
  and the bucket \<open>unknown\<close> of the extension counter stays as it was.
\<close>

theorem no_extension_not_unknown:
  "file_types (add_entry StatsAnalyzer (as_dict ex_readme)) ''unknown'' = 0 \<and>
   file_types (add_entry StatsAnalyzer (as_dict ex_readme)) ''no_extension'' = 1"
proof -
  have m: "d_metadata (as_dict ex_readme) = Some \<lparr>d_category = Some (Some ''doc''),
      d_tags = Some [''x''], d_systems = Some [], d_author = Some None\<rparr>"
    by (simp add: as_dict_def ex_readme_def)
  have n: "d_filename (as_dict ex_readme) = Some ''README''"
    by (simp add: as_dict_def ex_readme_def)
  have s: "file_type_of ''README'' = ''no_extension''"
    by code_simp
  from add_entry_counters(4) [OF m _ _ n, of "Some ''doc''" None StatsAnalyzer] s
  show ?thesis
    by (simp add: bump_def StatsAnalyzer_def)
qed

section \<open>Properties of saving a batch\<close>

lemma find_append_Some: "find P xs = Some x \<Longrightarrow> find P (xs @ ys) = Some x"
  by (induction xs) auto

lemma find_append_not_None: "find P xs \<noteq> None \<Longrightarrow> find P (xs @ ys) \<noteq> None"
  by (induction xs) auto

lemma find_snoc_new: "find P xs = None \<Longrightarrow> P x \<Longrightarrow> find P (xs @ [x]) = Some x"
  by (induction xs) (auto split: if_splits)

lemma find_Some_mem: "find P xs = Some x \<Longrightarrow> x \<in> set xs \<and> P x"
  by (induction xs) (auto split: if_splits)

lemma add_file_cases:
  assumes "size_fits fd"
  shows "(\<exists>row. find (\<lambda>r. f_full_path (snd r) = f_full_path fd) (files s) = Some row \<and>
          add_file s fd = Inr (fst row, s)) \<or>
         (find (\<lambda>r. f_full_path (snd r) = f_full_path fd) (files s) = None \<and>
          add_file s fd = Inr (next_rowid (files s),
                               s\<lparr>files := files s @ [(next_rowid (files s), fd)]\<rparr>))"
proof (cases "find (\<lambda>r. f_full_path (snd r) = f_full_path fd) (files s)")
  case None
  then have "\<not> (\<exists>row \<in> set (files s). f_full_path (snd row) = f_full_path fd)"
    by (auto simp: find_None_iff)
  with None assms show ?thesis by (simp add: add_file_def Let_def)
next
  case (Some row)
  then have "\<exists>row \<in> set (files s). f_full_path (snd row) = f_full_path fd"
    using find_Some_mem [of "\<lambda>r. f_full_path (snd r) = f_full_path fd" "files s" row]
    by blast
  with Some assms show ?thesis by (simp add: add_file_def)
qed

lemma add_annotation_cases:
  "(\<exists>row. find (\<lambda>r. a_file_id (snd r) = a_file_id ad \<and>
                      a_source_index (snd r) = a_source_index ad) (annotations s) = Some row \<and>
          add_annotation s ad = Inr (fst row, s)) \<or>
   (find (\<lambda>r. a_file_id (snd r) = a_file_id ad \<and>
               a_source_index (snd r) = a_source_index ad) (annotations s) = None \<and>
    add_annotation s ad = Inr (next_rowid (annotations s),
        s\<lparr>annotations := annotations s @ [(next_rowid (annotations s), ad)]\<rparr>))"
  by (cases "find (\<lambda>r. a_file_id (snd r) = a_file_id ad \<and>
                      a_source_index (snd r) = a_source_index ad) (annotations s)")
     (simp_all add: add_annotation_def Let_def)

lemma add_content_files: "files (after s (add_content dumps s cd)) = files s"
  by (auto simp: add_content_def after_def Let_def split: option.splits)

lemma add_file_outcome:
  assumes "size_fits fd"
  shows "\<exists>i s1 xs. add_file s fd = Inr (i, s1) \<and> files s1 = files s @ xs \<and>
      annotations s1 = annotations s \<and>
      (\<exists>row. find (\<lambda>r. f_full_path (snd r) = f_full_path fd) (files s1) = Some row \<and>
             fst row = i) \<and>
      (\<forall>row. find (\<lambda>r. f_full_path (snd r) = f_full_path fd) (files s) = Some row \<longrightarrow>
             xs = [] \<and> fst row = i)"
proof -
  let ?P = "\<lambda>r. f_full_path (snd r) = f_full_path fd"
  from add_file_cases [OF assms, of s] show ?thesis
  proof
    assume "\<exists>row. find ?P (files s) = Some row \<and> add_file s fd = Inr (fst row, s)"
    then obtain row where r: "find ?P (files s) = Some row" "add_file s fd = Inr (fst row, s)"
      by blast
    have "add_file s fd = Inr (fst row, s) \<and> files s = files s @ [] \<and>
      annotations s = annotations s \<and>
      (\<exists>row'. find ?P (files s) = Some row' \<and> fst row' = fst row) \<and>
      (\<forall>row'. find ?P (files s) = Some row' \<longrightarrow> [] = ([] :: file_data table) \<and>
          fst row' = fst row)"
      using r by simp
    then show ?thesis
      by (intro exI [of _ "fst row"] exI [of _ s] exI [of _ "[]"])
  next
    let ?i = "next_rowid (files s)"
    let ?s1 = "s\<lparr>files := files s @ [(?i, fd)]\<rparr>"
    assume a: "find ?P (files s) = None \<and> add_file s fd = Inr (?i, ?s1)"
    then have "find ?P (files s @ [(?i, fd)]) = Some (?i, fd)"
      using find_snoc_new [of ?P "files s" "(?i, fd)"] by simp
    with a have "add_file s fd = Inr (?i, ?s1) \<and> files ?s1 = files s @ [(?i, fd)] \<and>
      annotations ?s1 = annotations s \<and>
      (\<exists>row'. find ?P (files ?s1) = Some row' \<and> fst row' = ?i) \<and>
      (\<forall>row'. find ?P (files s) = Some row' \<longrightarrow> [(?i, fd)] = [] \<and> fst row' = ?i)"
      by simp
    then show ?thesis
      by (intro exI [of _ ?i] exI [of _ ?s1] exI [of _ "[(?i, fd)]"])
  qed
qed

lemma add_annotation_outcome:
  "\<exists>j s2 ys. add_annotation s1 ad = Inr (j, s2) \<and> s2 = after s1 (add_annotation s1 ad) \<and>
      files s2 = files s1 \<and> annotations s2 = annotations s1 @ ys \<and>
      find (\<lambda>r. a_file_id (snd r) = a_file_id ad \<and> a_source_index (snd r) = a_source_index ad)
        (annotations s2) \<noteq> None \<and>
      (find (\<lambda>r. a_file_id (snd r) = a_file_id ad \<and> a_source_index (snd r) = a_source_index ad)
        (annotations s1) \<noteq> None \<longrightarrow> ys = [])"
proof -
  let ?Q = "\<lambda>r. a_file_id (snd r) = a_file_id ad \<and> a_source_index (snd r) = a_source_index ad"
  from add_annotation_cases [of ad s1] show ?thesis
  proof
    assume "\<exists>row. find ?Q (annotations s1) = Some row \<and>
              add_annotation s1 ad = Inr (fst row, s1)"
    then obtain row where r: "find ?Q (annotations s1) = Some row"
        "add_annotation s1 ad = Inr (fst row, s1)"
      by blast
    have "add_annotation s1 ad = Inr (fst row, s1) \<and> s1 = after s1 (add_annotation s1 ad) \<and>
      files s1 = files s1 \<and> annotations s1 = annotations s1 @ [] \<and>
      find ?Q (annotations s1) \<noteq> None \<and>
      (find ?Q (annotations s1) \<noteq> None \<longrightarrow> [] = ([] :: annotation_data table))"
      using r by (simp add: after_def)
    then show ?thesis
      by (intro exI [of _ "fst row"] exI [of _ s1] exI [of _ "[]"])
  next
    let ?j = "next_rowid (annotations s1)"
    let ?s2 = "s1\<lparr>annotations := annotations s1 @ [(?j, ad)]\<rparr>"
    assume a: "find ?Q (annotations s1) = None \<and> add_annotation s1 ad = Inr (?j, ?s2)"
    then have "find ?Q (annotations s1 @ [(?j, ad)]) = Some (?j, ad)"
      using find_snoc_new [of ?Q "annotations s1" "(?j, ad)"] by simp
    with a have "add_annotation s1 ad = Inr (?j, ?s2) \<and>
      ?s2 = after s1 (add_annotation s1 ad) \<and>
      files ?s2 = files s1 \<and> annotations ?s2 = annotations s1 @ [(?j, ad)] \<and>
      find ?Q (annotations ?s2) \<noteq> None \<and>
      (find ?Q (annotations s1) \<noteq> None \<longrightarrow> [(?j, ad)] = [])"
      by (simp add: after_def)
    then show ?thesis
      by (intro exI [of _ ?j] exI [of _ ?s2] exI [of _ "[(?j, ad)]"])
  qed
qed

lemma save_entry_unfold:
  assumes "\<not> dry_run self" "filename e = Some name"
      and "add_file (db_manager self)
             \<lparr>f_filename = name, f_full_path = full_path_of p name,
              f_file_type = Some (dropWhile (\<lambda>c. c = CHR ''.'') (suffix_of (Path name))),
              f_size = Some 0, f_modified_date = None,
              f_category = Some (category (metadata e)), f_processed = False\<rparr> = Inr (i, s1)"
      and "add_annotation s1
             \<lparr>a_file_id = i, a_annotation_date = None, a_description = Some (description e),
              a_source_index = source_index e\<rparr> = Inr (j, s2)"
  shows "fst (save_entry dm ds p self e) =
           self\<lparr>db_manager := after s2 (add_content (\<lambda>t. Some (ds t)) s2
             \<lparr>c_file_id = i, c_raw_text = None, c_cleaned_text = None,
              c_metadata = Some (dm (metadata e))\<rparr>)\<rparr>"
proof -
  have "save_entry dm ds p self e =
      (case add_content (\<lambda>t. Some (ds t)) s2
             \<lparr>c_file_id = i, c_raw_text = None, c_cleaned_text = None,
              c_metadata = Some (dm (metadata e))\<rparr> of
         Inl e \<Rightarrow> (self\<lparr>db_manager := s2\<rparr>, 0)
       | Inr (content_id, s3) \<Rightarrow> (self\<lparr>db_manager := s3\<rparr>, 1))"
    unfolding save_entry_def Let_def init_db_connection_def
    by (simp only: assms if_False option.case sum.case prod.case)
  then show ?thesis
    by (auto simp: after_def split: sum.splits)
qed

text \<open>What saving one entry does to the two tables.\<close>

lemma save_entry_tables:
  assumes "\<not> dry_run self" "filename e = Some name"
  shows "\<exists>xs ys. files (db_manager (fst (save_entry dm ds p self e))) =
                   files (db_manager self) @ xs \<and>
           annotations (db_manager (fst (save_entry dm ds p self e))) =
                   annotations (db_manager self) @ ys \<and>
           (settled (db_manager self) p e \<longrightarrow> xs = [] \<and> ys = []) \<and>
           (annotations_unique (db_manager self) \<longrightarrow>
              annotations_unique (db_manager (fst (save_entry dm ds p self e))))"
    and "settled (db_manager (fst (save_entry dm ds p self e))) p e"
    and "dry_run (fst (save_entry dm ds p self e)) = dry_run self"
proof -
  define s where "s = db_manager self"
  define fd where "fd = \<lparr>f_filename = name, f_full_path = full_path_of p name,
                  f_file_type = Some (dropWhile (\<lambda>c. c = CHR ''.'') (suffix_of (Path name))),
                  f_size = Some 0, f_modified_date = None,
                  f_category = Some (category (metadata e)), f_processed = False\<rparr>"
  have fp: "f_full_path fd = full_path_of p name" by (simp add: fd_def)
  let ?P = "\<lambda>r. f_full_path (snd r) = full_path_of p name"
  have fits: "size_fits fd" by (simp add: fd_def size_fits_def fits_int64_def)
  from add_file_outcome [OF fits, of s]
  obtain i s1 xs where s1: "add_file s fd = Inr (i, s1)" "files s1 = files s @ xs"
      "annotations s1 = annotations s" "\<exists>row. find ?P (files s1) = Some row \<and> fst row = i"
      "\<forall>row. find ?P (files s) = Some row \<longrightarrow> xs = [] \<and> fst row = i"
    unfolding fp by blast
  define ad where "ad = \<lparr>a_file_id = i, a_annotation_date = None,
                          a_description = Some (description e),
                          a_source_index = source_index e\<rparr>"
  have adk: "a_file_id ad = i" "a_source_index ad = source_index e"
    by (simp_all add: ad_def)
  let ?Q = "\<lambda>r. a_file_id (snd r) = i \<and> a_source_index (snd r) = source_index e"
  from add_annotation_outcome [of s1 ad]
  obtain j s2 ys where s2: "add_annotation s1 ad = Inr (j, s2)"
      "s2 = after s1 (add_annotation s1 ad)" "files s2 = files s1"
      "annotations s2 = annotations s1 @ ys" "find ?Q (annotations s2) \<noteq> None"
      "find ?Q (annotations s1) \<noteq> None \<longrightarrow> ys = []"
    unfolding adk by blast
  define cd where "cd = \<lparr>c_file_id = i, c_raw_text = None, c_cleaned_text = None,
                          c_metadata = Some (dm (metadata e))\<rparr>"
  define s3 where "s3 = after s2 (add_content (\<lambda>t. Some (ds t)) s2 cd)"
  have s3: "files s3 = files s2" "annotations s3 = annotations s2"
    by (simp_all add: s3_def add_content_files add_content_annotations)
  have res: "fst (save_entry dm ds p self e) = self\<lparr>db_manager := s3\<rparr>"
    unfolding s3_def cd_def
    using assms(1,2) s1(1) [unfolded s_def fd_def] s2(1) [unfolded ad_def]
    by (rule save_entry_unfold)
  show "dry_run (fst (save_entry dm ds p self e)) = dry_run self"
    unfolding res by simp
  from s1(4) obtain row where row: "find ?P (files s1) = Some row" "fst row = i" by blast
  have "settled s3 p e"
    using assms(2) row s2(3,5) s3 by (simp add: settled_def)
  then show "settled (db_manager (fst (save_entry dm ds p self e))) p e"
    unfolding res by simp
  have uniq: "annotations_unique s \<longrightarrow> annotations_unique s3"
  proof
    assume "annotations_unique s"
    with s1(3) have "annotations_unique s1" by (simp add: annotations_unique_def)
    then have "annotations_unique (after s1 (add_annotation s1 ad))"
      by (rule add_annotation_unique)
    then have "annotations_unique s2" using s2(2) by simp
    with s3(2) show "annotations_unique s3" by (simp add: annotations_unique_def)
  qed
  have sett: "settled s p e \<longrightarrow> xs = [] \<and> ys = []"
  proof
    assume st: "settled s p e"
    then obtain r where r: "find ?P (files s) = Some r"
        "find (\<lambda>a. a_file_id (snd a) = fst r \<and> a_source_index (snd a) = source_index e)
           (annotations s) \<noteq> None"
      using assms(2) by (auto simp: settled_def split: option.splits)
    from r(1) s1(5) have xs: "xs = []" and "fst r = i" by blast+
    with r(2) s1(3) have "find ?Q (annotations s1) \<noteq> None" by simp
    with s2(6) xs show "xs = [] \<and> ys = []" by blast
  qed
  have "files s3 = files s @ xs" using s1(2) s2(3) s3(1) by simp
  moreover have "annotations s3 = annotations s @ ys" using s1(3) s2(4) s3(2) by simp
  ultimately have "files s3 = files s @ xs \<and> annotations s3 = annotations s @ ys \<and>
           (settled s p e \<longrightarrow> xs = [] \<and> ys = []) \<and>
           (annotations_unique s \<longrightarrow> annotations_unique s3)"
    using uniq sett by blast
  then show "\<exists>xs ys. files (db_manager (fst (save_entry dm ds p self e))) =
                   files (db_manager self) @ xs \<and>
           annotations (db_manager (fst (save_entry dm ds p self e))) =
                   annotations (db_manager self) @ ys \<and>
           (settled (db_manager self) p e \<longrightarrow> xs = [] \<and> ys = []) \<and>
           (annotations_unique (db_manager self) \<longrightarrow>
              annotations_unique (db_manager (fst (save_entry dm ds p self e))))"
    unfolding res s_def by auto
qed

lemma extends_refl: "extends s s"
  by (simp add: extends_def)

lemma extends_trans: "extends s s1 \<Longrightarrow> extends s1 s2 \<Longrightarrow> extends s s2"
  by (auto simp: extends_def)

lemma same_rows_trans: "same_rows s s1 \<Longrightarrow> same_rows s1 s2 \<Longrightarrow> same_rows s s2"
  by (simp add: same_rows_def)

lemma settled_mono:
  assumes "extends s s'" "settled s p e"
  shows "settled s' p e"
proof (cases "filename e")
  case None
  then show ?thesis by (simp add: settled_def)
next
  case (Some name)
  from assms(1) obtain xs ys where x: "files s' = files s @ xs"
      "annotations s' = annotations s @ ys" by (auto simp: extends_def)
  from assms(2) Some obtain row where
    r: "find (\<lambda>row. f_full_path (snd row) = full_path_of p name) (files s) = Some row"
       "find (\<lambda>r. a_file_id (snd r) = fst row \<and> a_source_index (snd r) = source_index e)
          (annotations s) \<noteq> None"
    by (auto simp: settled_def split: option.splits)
  from r(1) have "find (\<lambda>row. f_full_path (snd row) = full_path_of p name) (files s') = Some row"
    unfolding x by (rule find_append_Some)
  moreover from r(2) have
    "find (\<lambda>r. a_file_id (snd r) = fst row \<and> a_source_index (snd r) = source_index e)
          (annotations s') \<noteq> None"
    unfolding x by (rule find_append_not_None)
  ultimately show ?thesis using Some by (simp add: settled_def)
qed

lemma save_entry_effect:
  assumes "\<not> dry_run self"
  shows "\<not> dry_run (fst (save_entry dm ds p self e))"
    and "extends (db_manager self) (db_manager (fst (save_entry dm ds p self e)))"
    and "settled (db_manager (fst (save_entry dm ds p self e))) p e"
    and "settled (db_manager self) p e \<Longrightarrow>
           same_rows (db_manager self) (db_manager (fst (save_entry dm ds p self e)))"
proof -
  have "\<not> dry_run (fst (save_entry dm ds p self e)) \<and>
        extends (db_manager self) (db_manager (fst (save_entry dm ds p self e))) \<and>
        settled (db_manager (fst (save_entry dm ds p self e))) p e \<and>
        (settled (db_manager self) p e \<longrightarrow>
           same_rows (db_manager self) (db_manager (fst (save_entry dm ds p self e))))"
  proof (cases "filename e")
    case None
    then have "save_entry dm ds p self e = (self, 0)"
      using assms by (simp add: save_entry_def init_db_connection_def)
    with None assms show ?thesis
      by (simp add: extends_refl same_rows_def settled_def)
  next
    case (Some name)
    from save_entry_tables [OF assms Some, where dm = dm and ds = ds and p = p] show ?thesis
      using assms by (auto simp: extends_def same_rows_def)
  qed
  then show "\<not> dry_run (fst (save_entry dm ds p self e))"
    and "extends (db_manager self) (db_manager (fst (save_entry dm ds p self e)))"
    and "settled (db_manager (fst (save_entry dm ds p self e))) p e"
    and "settled (db_manager self) p e \<Longrightarrow>
           same_rows (db_manager self) (db_manager (fst (save_entry dm ds p self e)))"
    by blast+
qed

lemma save_step_fst: "fst (save_step dm ds p acc e) = fst (save_entry dm ds p (fst acc) e)"
  by (simp add: save_step_def Let_def)

lemma save_file_effect:
  "\<not> dry_run (fst acc) \<Longrightarrow>
   \<not> dry_run (fst (foldl (save_step dm ds p) acc es)) \<and>
   extends (db_manager (fst acc)) (db_manager (fst (foldl (save_step dm ds p) acc es))) \<and>
   (\<forall>e \<in> set es. settled (db_manager (fst (foldl (save_step dm ds p) acc es))) p e) \<and>
   ((\<forall>e \<in> set es. settled (db_manager (fst acc)) p e) \<longrightarrow>
      same_rows (db_manager (fst acc)) (db_manager (fst (foldl (save_step dm ds p) acc es))))"
proof (induction es arbitrary: acc)
  case Nil
  then show ?case by (simp add: extends_refl same_rows_def)
next
  case (Cons e es)
  let ?acc1 = "save_step dm ds p acc e"
  let ?acc' = "foldl (save_step dm ds p) ?acc1 es"
  note step = save_entry_effect [OF Cons.prems, where dm = dm and ds = ds and p = p and e = e,
      folded save_step_fst]
  note ih = Cons.IH [OF step(1)]
  have ext: "extends (db_manager (fst acc)) (db_manager (fst ?acc'))"
    using step(2) ih extends_trans by blast
  have e_settled: "settled (db_manager (fst ?acc')) p e"
    using step(3) ih settled_mono by blast
  have fixed: "(\<forall>x \<in> set (e # es). settled (db_manager (fst acc)) p x) \<longrightarrow>
      same_rows (db_manager (fst acc)) (db_manager (fst ?acc'))"
  proof
    assume a: "\<forall>x \<in> set (e # es). settled (db_manager (fst acc)) p x"
    then have s1: "same_rows (db_manager (fst acc)) (db_manager (fst ?acc1))"
      using step(4) by simp
    from a step(2) have "\<forall>x \<in> set es. settled (db_manager (fst ?acc1)) p x"
      using settled_mono by auto
    with ih have "same_rows (db_manager (fst ?acc1)) (db_manager (fst ?acc'))" by blast
    with s1 show "same_rows (db_manager (fst acc)) (db_manager (fst ?acc'))"
      by (rule same_rows_trans)
  qed
  from ih ext e_settled fixed show ?case by simp
qed

lemma save_batch_effect:
  "\<not> dry_run (fst acc) \<Longrightarrow>
   \<not> dry_run (fst (foldl (\<lambda>acc f. foldl (save_step dm ds (fst f)) acc (snd f))
                      acc batch)) \<and>
   extends (db_manager (fst acc))
     (db_manager (fst (foldl (\<lambda>acc f. foldl (save_step dm ds (fst f)) acc (snd f))
                       acc batch))) \<and>
   all_settled
     (db_manager (fst (foldl (\<lambda>acc f. foldl (save_step dm ds (fst f)) acc (snd f))
                       acc batch))) batch \<and>
   (all_settled (db_manager (fst acc)) batch \<longrightarrow>
      same_rows (db_manager (fst acc))
        (db_manager (fst (foldl (\<lambda>acc f. foldl (save_step dm ds (fst f)) acc (snd f))
                       acc batch))))"
proof (induction batch arbitrary: acc)
  case Nil
  then show ?case by (simp add: extends_refl same_rows_def all_settled_def)
next
  case (Cons f batch)
  let ?f = "\<lambda>acc f. foldl (save_step dm ds (fst f)) acc (snd f)"
  let ?acc1 = "foldl (save_step dm ds (fst f)) acc (snd f)"
  let ?acc' = "foldl ?f ?acc1 batch"
  note step = save_file_effect [OF Cons.prems, where dm = dm and ds = ds and p = "fst f"
      and es = "snd f"]
  from step have d1: "\<not> dry_run (fst ?acc1)" by blast
  note ih = Cons.IH [OF d1]
  have ext: "extends (db_manager (fst acc)) (db_manager (fst ?acc'))"
    using step ih extends_trans by blast
  have "\<forall>e \<in> set (snd f). settled (db_manager (fst ?acc')) (fst f) e"
    using step ih settled_mono by blast
  with ih have all: "all_settled (db_manager (fst ?acc')) (f # batch)"
    by (simp add: all_settled_def)
  have fixed: "all_settled (db_manager (fst acc)) (f # batch) \<longrightarrow>
      same_rows (db_manager (fst acc)) (db_manager (fst ?acc'))"
  proof
    assume a: "all_settled (db_manager (fst acc)) (f # batch)"
    then have "\<forall>e \<in> set (snd f). settled (db_manager (fst acc)) (fst f) e"
      by (simp add: all_settled_def)
    with step have s1: "same_rows (db_manager (fst acc)) (db_manager (fst ?acc1))" by blast
    from step have "extends (db_manager (fst acc)) (db_manager (fst ?acc1))" by blast
    with a have "all_settled (db_manager (fst ?acc1)) batch"
      using settled_mono by (auto simp: all_settled_def)
    with ih have "same_rows (db_manager (fst ?acc1)) (db_manager (fst ?acc'))" by blast
    with s1 show "same_rows (db_manager (fst acc)) (db_manager (fst ?acc'))"
      by (rule same_rows_trans)
  qed
  from ih ext all fixed show ?case by simp
qed

lemma save_entries_to_db_rerun:
  assumes "\<not> dry_run self"
  shows "same_rows (db_manager (fst (save_entries_to_db dm ds self batch)))
           (db_manager (fst (save_entries_to_db dm ds
               (fst (save_entries_to_db dm ds self batch)) batch)))"
    and "extends (db_manager self) (db_manager (fst (save_entries_to_db dm ds self batch)))"
proof -
  let ?self1 = "fst (save_entries_to_db dm ds self batch)"
  from save_batch_effect [where acc = "(self, 0)" and dm = dm and ds = ds and batch = batch] assms
  have 1: "\<not> dry_run ?self1" "extends (db_manager self) (db_manager ?self1)"
       "all_settled (db_manager ?self1) batch"
    by (simp_all add: save_entries_to_db_def)
  from save_batch_effect [where acc = "(?self1, 0)" and dm = dm and ds = ds and batch = batch]
    1(1,3)
  show "same_rows (db_manager ?self1)
           (db_manager (fst (save_entries_to_db dm ds ?self1 batch)))"
    by (simp add: save_entries_to_db_def)
  from 1(2) show "extends (db_manager self) (db_manager ?self1)" .
qed

text \<open>
  C2. In a store where no two annotation rows share \<open>(file_id, source_index)\<close>, a call of
  \<open>add_annotation\<close> whose pair is held by a row returns that row's id and leaves the
  store exactly as it was; every writing operation of the store, and every sequence of
  them, ends in a store where again no two annotation rows share the pair; so does
  \<open>save_entries_to_db\<close> on any batch, and saving the same batch a second time leaves
  the annotations table as the first time left it.
\<close>

theorem add_annotation_idempotent:
  assumes "annotations_unique s"
  shows "(row \<in> set (annotations s) \<and> a_file_id ad = a_file_id (snd row) \<and>
          a_source_index ad = a_source_index (snd row) \<longrightarrow>
            add_annotation s ad = Inr (fst row, s)) \<and>
         annotations_unique (apply_op dumps s op) \<and>
         annotations_unique (run_ops dumps s ops) \<and>
         (db_manager self = s \<and> \<not> dry_run self \<longrightarrow>
            annotations_unique (db_manager (fst (save_entries_to_db dm ds self batch))) \<and>
            annotations (db_manager (fst (save_entries_to_db dm ds
                (fst (save_entries_to_db dm ds self batch)) batch))) =
              annotations (db_manager (fst (save_entries_to_db dm ds self batch))))"
proof (intro conjI impI)
  assume "row \<in> set (annotations s) \<and> a_file_id ad = a_file_id (snd row) \<and>
          a_source_index ad = a_source_index (snd row)"
  with assms show "add_annotation s ad = Inr (fst row, s)"
    using add_annotation_existing by blast
next
  show "annotations_unique (apply_op dumps s op)"
    using assms by (rule apply_op_unique)
next
  show "annotations_unique (run_ops dumps s ops)"
    using assms by (rule run_ops_unique)
next
  assume a: "db_manager self = s \<and> \<not> dry_run self"
  with save_entries_to_db_rerun(2) [of self dm ds batch] assms
  show "annotations_unique (db_manager (fst (save_entries_to_db dm ds self batch)))"
    by (simp add: extends_def)
next
  assume a: "db_manager self = s \<and> \<not> dry_run self"
  with save_entries_to_db_rerun(1) [of self dm ds batch]
  show "annotations (db_manager (fst (save_entries_to_db dm ds
                (fst (save_entries_to_db dm ds self batch)) batch))) =
              annotations (db_manager (fst (save_entries_to_db dm ds self batch)))"
    by (simp add: same_rows_def)
qed

theorem add_annotation_idempotent_witness:
  "annotations_unique ex_store \<and> (9, ex_annotation) \<in> set (annotations ex_store) \<and>
   a_file_id ex_annotation_again = a_file_id ex_annotation \<and>
   a_source_index ex_annotation_again = a_source_index ex_annotation \<and>
   add_annotation ex_store ex_annotation_again = Inr (9, ex_store) \<and>
   annotations_unique (run_ops ex_dumps ex_store
     [AddFile ex_file_again, AddAnnotation ex_annotation_again, AddContent (ex_content ''m''),
      MarkProcessed 4, AddAnnotation ex_annotation]) \<and>
   db_manager ex_processor = ex_store \<and> \<not> dry_run ex_processor \<and>
   map fst (annotations (db_manager (fst
      (save_entries_to_db ex_dumps_metadata ex_dumps_str ex_processor ex_batch)))) = [9, 10] \<and>
   map fst (annotations (db_manager (fst
      (save_entries_to_db ex_dumps_metadata ex_dumps_str
         (fst (save_entries_to_db ex_dumps_metadata ex_dumps_str ex_processor ex_batch))
         ex_batch)))) = [9, 10]"
proof -
  have u: "annotations_unique ex_store"
    by (simp add: annotations_unique_def ex_store_def)
  have m: "(9, ex_annotation) \<in> set (annotations ex_store)"
    by (simp add: ex_store_def)
  have k: "a_file_id ex_annotation_again = a_file_id (snd (9::int, ex_annotation))"
     "a_source_index ex_annotation_again = a_source_index (snd (9::int, ex_annotation))"
    by (simp_all add: ex_annotation_def ex_annotation_again_def)
  have p: "db_manager ex_processor = ex_store" "\<not> dry_run ex_processor"
    by (simp_all add: ex_processor_def)
  have first: "map fst (annotations (db_manager (fst
      (save_entries_to_db ex_dumps_metadata ex_dumps_str ex_processor ex_batch)))) = [9, 10]"
    by code_simp
  from add_annotation_idempotent [OF u, where row = "(9, ex_annotation)"
      and ad = ex_annotation_again and dumps = ex_dumps
      and ops = "[AddFile ex_file_again, AddAnnotation ex_annotation_again,
                  AddContent (ex_content ''m''), MarkProcessed 4, AddAnnotation ex_annotation]"
      and self = ex_processor and dm = ex_dumps_metadata and ds = ex_dumps_str
      and batch = ex_batch]
    u m k p first
  show ?thesis by simp
qed

end
